theory Spec2Isabelle
  imports Complex_Main "HOL-Library.Multiset" "HOL-Library.Product_Lexorder"
begin

section \<open>SkyHarbour: the simulation core of the airport game\<close>

text \<open>
  A shallow embedding of the engine hook (\<^verbatim>\<open>useGameEngine\<close>), of the calendar helpers of
  \<^verbatim>\<open>constants.ts\<close> and of the traffic projection of the dashboard. JavaScript numbers are
  read as mathematical numbers: tick counts and scheduled times as \<^typ>\<open>int\<close>, positions,
  speeds and economy counters as \<^typ>\<open>real\<close>. Objects are records, string enums are
  datatypes, \<^verbatim>\<open>null\<close> is \<^const>\<open>None\<close>.
\<close>

subsection \<open>Data model (types.ts)\<close>

datatype PlaneStatus =
  APPROACH | LANDING | TAXI_IN | WAITING_FOR_GATE | PARKED | TAXI_OUT
  | HOLD_SHORT | TAKEOFF | DEPARTED | GO_AROUND | DIVERTED

datatype AircraftType = regional | narrowbody | widebody

datatype FlightStatus = Scheduled | OnTime | Delayed | Landed | Departed | Cancelled | Diverted

datatype LogType = log_info | log_success | log_warning | log_error | log_ai

datatype Weather = Sunny | Rainy | Foggy | Stormy

record Position =
  pos_x :: real
  pos_y :: real
  heading :: real

record ScheduledFlight =
  f_id :: string
  f_airline :: string
  f_flightNumber :: string
  f_type :: AircraftType
  scheduledTime :: int
  isArrival :: bool
  f_status :: FlightStatus

record Plane =
  p_id :: string
  p_airline :: string
  p_flightNumber :: string
  p_type :: AircraftType
  p_status :: PlaneStatus
  position :: Position
  waypoints :: "Position list"
  targetGateId :: "string option"
  passengers :: int
  revenue :: int
  fuel :: real
  timer :: int
  history :: "string list"

datatype NodeType = nt_runway_start | nt_runway_end | nt_taxi_intersect | nt_gate | nt_hold_short

record Node =
  n_id :: string
  n_x :: real
  n_y :: real
  n_type :: NodeType

record Economy =
  balance :: real
  tourismScore :: real
  industryScore :: real
  demand :: real
  reputation :: real

text \<open>
  The \<^verbatim>\<open>effect\<close> closure of an upgrade mutates the game state it is given. The four
  closures of \<^verbatim>\<open>INITIAL_UPGRADES\<close> are an empty body, \<^verbatim>\<open>s.economy.demand += 25\<close> and
  \<^verbatim>\<open>s.economy.tourismScore += 20\<close>; they are kept as a descriptor that
  \<open>apply_effect\<close> below interprets. The optional \<^verbatim>\<open>prerequisite\<close> is given by none of
  them.
\<close>

datatype Effect = NoEffect | AddDemand real | AddTourism real

record TechUpgrade =
  u_id :: string
  u_name :: string
  u_description :: string
  cost :: real
  unlocked :: bool
  effect :: Effect
  prerequisite :: "string option"

record LogEntry =
  l_id :: string
  message :: string
  l_type :: LogType
  timestamp :: int

text \<open>
  \<^verbatim>\<open>Record<string, string | null>\<close>: a key that is absent reads \<^verbatim>\<open>undefined\<close>
  (\<^const>\<open>None\<close>), a key bound to \<^verbatim>\<open>null\<close> reads \<open>Some None\<close>.
\<close>

type_synonym Occupancy = "string \<rightharpoonup> string option"

record GameState =
  gameTime :: int
  schedule :: "ScheduledFlight list"
  planes :: "Plane list"
  economy :: Economy
  upgrades :: "TechUpgrade list"
  logs :: "LogEntry list"
  paused :: bool
  gameSpeed :: real
  weather :: Weather
  windDirection :: real
  windSpeed :: real
  selectedPlaneId :: "string option"
  aiEnabled :: bool
  gateOccupancy :: Occupancy

subsection \<open>Sources of randomness\<close>

text \<open>
  \<^verbatim>\<open>Math.random()\<close> returns a number in \<open>[0, 1)\<close>; \<^verbatim>\<open>uuidv4()\<close> returns a fresh
  identifier. Both are read from a stream carried explicitly through the code that draws
  from them.
\<close>

typedef unit_draw = "{r :: real. 0 \<le> r \<and> r < 1}"
  by (rule exI [of _ 0]) simp

record Entropy =
  randoms :: "nat \<Rightarrow> unit_draw"
  rpos :: nat
  uuids :: "nat \<Rightarrow> string"
  upos :: nat

definition Math_random :: "Entropy \<Rightarrow> real \<times> Entropy" where
  "Math_random g = (Rep_unit_draw (randoms g (rpos g)), g\<lparr>rpos := rpos g + 1\<rparr>)"

definition uuidv4 :: "Entropy \<Rightarrow> string \<times> Entropy" where
  "uuidv4 g = (uuids g (upos g), g\<lparr>upos := upos g + 1\<rparr>)"

subsection \<open>Printing integers\<close>

definition digit_char :: "nat \<Rightarrow> char" where
  "digit_char d = char_of (48 + d)"

function string_of_nat :: "nat \<Rightarrow> string" where
  "string_of_nat n =
     (if n < 10 then [digit_char n] else string_of_nat (n div 10) @ [digit_char (n mod 10)])"
  by pat_completeness auto
termination
  by (relation "measure id") auto

declare string_of_nat.simps [simp del]

definition string_of_int :: "int \<Rightarrow> string" where
  "string_of_int i = (if i < 0 then CHR ''-'' # string_of_nat (nat (- i)) else string_of_nat (nat i))"

subsection \<open>Constants and calendar (constants.ts)\<close>

definition MAP_NODES :: "Node list" where
  "MAP_NODES =
    [\<lparr>n_id = ''rw_start_09'', n_x = 500, n_y = 750, n_type = nt_runway_start\<rparr>,
     \<lparr>n_id = ''rw_end_27'', n_x = 1700, n_y = 750, n_type = nt_runway_end\<rparr>,
     \<lparr>n_id = ''taxi_alpha_1'', n_x = 500, n_y = 850, n_type = nt_hold_short\<rparr>,
     \<lparr>n_id = ''taxi_exit_highspeed'', n_x = 1300, n_y = 750, n_type = nt_taxi_intersect\<rparr>,
     \<lparr>n_id = ''taxi_alpha_main'', n_x = 1300, n_y = 850, n_type = nt_taxi_intersect\<rparr>,
     \<lparr>n_id = ''gate_1'', n_x = 800, n_y = 950, n_type = nt_gate\<rparr>,
     \<lparr>n_id = ''gate_2'', n_x = 1000, n_y = 950, n_type = nt_gate\<rparr>,
     \<lparr>n_id = ''gate_3'', n_x = 1200, n_y = 950, n_type = nt_gate\<rparr>,
     \<lparr>n_id = ''gate_4'', n_x = 1400, n_y = 950, n_type = nt_gate\<rparr>]"

definition INITIAL_UPGRADES :: "TechUpgrade list" where
  "INITIAL_UPGRADES =
    [\<lparr>u_id = ''ils_cat2'', u_name = ''ILS CAT II Instrument System'',
      u_description = ''Allows landings in rainy weather. Essential for consistency.'',
      cost = 150000, unlocked = False, effect = NoEffect,
      prerequisite = None\<rparr>,
     \<lparr>u_id = ''terminal_exp_1'', u_name = ''Terminal Wing A Expansion'',
      u_description = ''Constructs Gate 4 to handle increased daily traffic.'',
      cost = 1250000, unlocked = False, effect = NoEffect,
      prerequisite = None\<rparr>,
     \<lparr>u_id = ''radar_system'', u_name = ''NextGen Radar Coverage'',
      u_description = ''Increases airspace efficiency, allowing 25% more flights.'',
      cost = 450000, unlocked = False, effect = AddDemand 25,
      prerequisite = None\<rparr>,
     \<lparr>u_id = ''marketing_campaign'', u_name = ''International Brand Campaign'',
      u_description = ''Attracts major international carriers (+20 Tourism).'',
      cost = 250000, unlocked = False, effect = AddTourism 20,
      prerequisite = None\<rparr>]"

record Airline =
  a_name :: string
  a_code :: string
  a_color :: string

definition AIRLINES :: "Airline list" where
  "AIRLINES =
    [\<lparr>a_name = ''SkyRegional'', a_code = ''SKR'', a_color = ''#3b82f6''\<rparr>,
     \<lparr>a_name = ''EcoJet'', a_code = ''ECO'', a_color = ''#10b981''\<rparr>,
     \<lparr>a_name = ''RoyalAir'', a_code = ''RYL'', a_color = ''#8b5cf6''\<rparr>,
     \<lparr>a_name = ''BudgetFly'', a_code = ''BGT'', a_color = ''#f59e0b''\<rparr>,
     \<lparr>a_name = ''CargoLifter'', a_code = ''CGO'', a_color = ''#475569''\<rparr>]"

definition INITIAL_ECONOMY :: Economy where
  "INITIAL_ECONOMY =
    \<lparr>balance = 200000, tourismScore = 20, industryScore = 30, demand = 40, reputation = 80\<rparr>"

definition MONTHS :: "string list" where
  "MONTHS = [''Jan'', ''Feb'', ''Mar'', ''Apr'', ''May'', ''Jun'',
             ''Jul'', ''Aug'', ''Sep'', ''Oct'', ''Nov'', ''Dec'']"

definition START_YEAR :: int where
  "START_YEAR = 1"

definition START_TIME_OFFSET :: int where
  "START_TIME_OFFSET = 172800"

text \<open>JavaScript's \<^verbatim>\<open>%\<close> takes the sign of the dividend.\<close>

definition js_rem :: "int \<Rightarrow> int \<Rightarrow> int" where
  "js_rem a b = sgn a * (\<bar>a\<bar> mod \<bar>b\<bar>)"

record GameDate =
  year :: int
  monthIndex :: int
  day :: int
  hours :: int
  minutes :: int

text \<open>
  \<^verbatim>\<open>getGameDate\<close>; the formatted strings of its result (month name, time string, full
  date) are not kept. On integers \<^verbatim>\<open>Math.floor(a / b)\<close> is \<open>a div b\<close>.
\<close>

definition getGameDate :: "int \<Rightarrow> GameDate" where
  "getGameDate ticks =
    (let totalMinutes = ticks + START_TIME_OFFSET;
         minutesInDay = 1440;
         minutesInMonth = 1440 * 30;
         minutesInYear = 1440 * 30 * 12;
         years = totalMinutes div minutesInYear + START_YEAR;
         yearRemainder = js_rem totalMinutes minutesInYear;
         months = yearRemainder div minutesInMonth;
         monthRemainder = js_rem yearRemainder minutesInMonth;
         days = monthRemainder div minutesInDay + 1;
         dayRemainder = js_rem monthRemainder minutesInDay
     in \<lparr>year = years, monthIndex = months, day = days,
         hours = dayRemainder div 60, minutes = js_rem dayRemainder 60\<rparr>)"

subsection \<open>Seasonality\<close>

text \<open>
  The seasonal multiplier is written out twice in the source: in \<^verbatim>\<open>generateSchedule\<close>
  on \<^verbatim>\<open>date.monthIndex\<close>, and in the dashboard's \<^verbatim>\<open>trafficData\<close> on
  \<^verbatim>\<open>monthOffset\<close>, which runs past 11.
\<close>

definition schedule_seasonality :: "int \<Rightarrow> real" where
  "schedule_seasonality m = 1 + 0.3 * sin ((of_int m - 2) * pi / 6)"

definition projection_seasonality :: "int \<Rightarrow> real" where
  "projection_seasonality monthOffset = 1 + 0.3 * sin ((of_int monthOffset - 2) * pi / 6)"

record TrafficPoint =
  tp_name :: string
  tp_flights :: int

definition month_name :: "int \<Rightarrow> string" where
  "month_name k = (if 0 \<le> k \<and> k < 12 then MONTHS ! nat k else ''undefined'')"

text \<open>\<^verbatim>\<open>str.slice(-2)\<close>: the last two characters.\<close>

definition slice_last2 :: "string \<Rightarrow> string" where
  "slice_last2 s = drop (length s - 2) s"

text \<open>
  The projection loop of \<^verbatim>\<open>trafficData\<close>, from month \<open>i\<close> on, \<open>n\<close> months to go;
  \<open>currentDemand\<close> is the demand projected so far.
\<close>

fun traffic_loop :: "GameDate \<Rightarrow> real \<Rightarrow> int \<Rightarrow> nat \<Rightarrow> real \<Rightarrow> TrafficPoint list" where
  "traffic_loop currentDate netGrowthRate i 0 currentDemand = []"
| "traffic_loop currentDate netGrowthRate i (Suc n) currentDemand =
    (let monthOffset = monthIndex currentDate + i;
         yearOffset = year currentDate + monthOffset div 12;
         monthName = month_name (js_rem monthOffset 12);
         monthLabel = monthName @ '' '' @ [CHR 0x27] @ slice_last2 (string_of_int yearOffset);
         seasonality = projection_seasonality monthOffset;
         currentDemand' = currentDemand * netGrowthRate;
         projected = \<lfloor>currentDemand' * 10 * seasonality\<rfloor>
     in \<lparr>tp_name = monthLabel, tp_flights = max 0 projected\<rparr>
        # traffic_loop currentDate netGrowthRate (i + 1) n currentDemand')"

definition trafficData :: "GameState \<Rightarrow> nat \<Rightarrow> TrafficPoint list" where
  "trafficData gameState projectionYears =
    (let unlockedUpgrades = length (filter unlocked (upgrades gameState));
         monthlyGrowthBase = (reputation (economy gameState) - 50) / 400;
         infraBoost = real unlockedUpgrades * 0.05;
         netGrowthRate = 1 + (monthlyGrowthBase + infraBoost) / 10
     in traffic_loop (getGameDate (gameTime gameState)) netGrowthRate 0
          (projectionYears * 12) (demand (economy gameState)))"

subsection \<open>Scheduler (generateSchedule)\<close>

record Interval =
  iv_start :: int
  iv_end :: int

record SweepPoint =
  pt_t :: int
  pt_type :: int

definition GATE_OCCUPANCY_WINDOW :: int where
  "GATE_OCCUPANCY_WINDOW = 450"

definition hasTerminalExp :: "TechUpgrade list \<Rightarrow> bool" where
  "hasTerminalExp ups = list_ex (\<lambda>u. u_id u = ''terminal_exp_1'' \<and> unlocked u) ups"

definition totalGates :: "TechUpgrade list \<Rightarrow> int" where
  "totalGates ups = (if hasTerminalExp ups then 4 else 3)"

text \<open>The running counter of the sweep: \<open>(maxConcurrent, currentConcurrent)\<close> over the points.\<close>

fun sweep :: "int \<Rightarrow> int \<Rightarrow> SweepPoint list \<Rightarrow> int" where
  "sweep maxConcurrent currentConcurrent [] = maxConcurrent"
| "sweep maxConcurrent currentConcurrent (p # ps) =
     sweep (max maxConcurrent (currentConcurrent + pt_type p)) (currentConcurrent + pt_type p) ps"

text \<open>
  The comparator \<^verbatim>\<open>a.t - b.t || a.type - b.type\<close> orders the points by time and, at equal
  times, the end points (\<open>-1\<close>) before the start points (\<open>1\<close>): the lexicographic order of
  the pair \<open>(t, type)\<close>.
\<close>

definition maxConcurrency :: "Interval list \<Rightarrow> int" where
  "maxConcurrency relevant =
    (let points = concat (map (\<lambda>iv. [\<lparr>pt_t = iv_start iv, pt_type = 1\<rparr>,
                                       \<lparr>pt_t = iv_end iv, pt_type = - 1\<rparr>]) relevant);
         sorted_points = sort_key (\<lambda>p. (pt_t p, pt_type p)) points
     in sweep 0 0 sorted_points)"

record SchedulerLoop =
  committedIntervals :: "Interval list"
  futureFlights :: "ScheduledFlight list"
  sl_entropy :: Entropy

text \<open>The body of the branch \<^verbatim>\<open>maxConcurrent <= totalGates\<close>: a valid slot was found.\<close>

definition accept_slot :: "int \<Rightarrow> int \<Rightarrow> SchedulerLoop \<Rightarrow> SchedulerLoop" where
  "accept_slot effectiveDemand slotTime st =
    (let (r_airline, g1) = Math_random (sl_entropy st);
         airline = AIRLINES ! nat \<lfloor>r_airline * real (length AIRLINES)\<rfloor>;
         (ty1, g2) = (if effectiveDemand > 50
                      then (let (r, g) = Math_random g1
                            in (if r > 0.5 then narrowbody else regional, g))
                      else (regional, g1));
         (ty2, g3) = (if effectiveDemand > 80
                      then (let (r, g) = Math_random g2
                            in (if r > 0.8 then widebody else ty1, g))
                      else (ty1, g2));
         (fid, g4) = uuidv4 g3;
         (r_number, g5) = Math_random g4;
         newFlight = \<lparr>f_id = fid, f_airline = a_name airline,
                      f_flightNumber = a_code airline @ string_of_int (\<lfloor>r_number * 900\<rfloor> + 100),
                      f_type = ty2, scheduledTime = slotTime, isArrival = True,
                      f_status = Scheduled\<rparr>
     in \<lparr>committedIntervals = committedIntervals st
            @ [\<lparr>iv_start = slotTime, iv_end = slotTime + GATE_OCCUPANCY_WINDOW\<rparr>],
         futureFlights = futureFlights st @ [newFlight],
         sl_entropy = g5\<rparr>)"

text \<open>
  The loop \<^verbatim>\<open>while (attempts < 15 && !scheduled)\<close>: it ends when a slot is accepted or
  after the fifteenth attempt.
\<close>

function attempt_loop :: "int \<Rightarrow> int \<Rightarrow> int \<Rightarrow> nat \<Rightarrow> SchedulerLoop \<Rightarrow> SchedulerLoop" where
  "attempt_loop currentTime effectiveDemand gates attempts st =
    (if attempts < 15 then
       (let (r, g1) = Math_random (sl_entropy st);
            slotTime = currentTime + \<lfloor>r * 360\<rfloor> + 60;
            candidateEnd = slotTime + GATE_OCCUPANCY_WINDOW;
            relevant = filter (\<lambda>iv. iv_start iv < candidateEnd \<and> iv_end iv > slotTime)
                         (committedIntervals st @ [\<lparr>iv_start = slotTime, iv_end = candidateEnd\<rparr>])
        in if maxConcurrency relevant \<le> gates
           then accept_slot effectiveDemand slotTime (st\<lparr>sl_entropy := g1\<rparr>)
           else attempt_loop currentTime effectiveDemand gates (attempts + 1)
                  (st\<lparr>sl_entropy := g1\<rparr>))
     else st)"
  by pat_completeness auto
termination
  by (relation "measure (\<lambda>(currentTime, effectiveDemand, gates, attempts, st). 15 - attempts)") auto

declare attempt_loop.simps [simp del]

text \<open>The loop \<^verbatim>\<open>for (let i = 0; i < numFlights; i++)\<close>, with \<open>n\<close> rounds to go.\<close>

fun flights_loop :: "int \<Rightarrow> int \<Rightarrow> int \<Rightarrow> nat \<Rightarrow> SchedulerLoop \<Rightarrow> SchedulerLoop" where
  "flights_loop currentTime effectiveDemand gates 0 st = st"
| "flights_loop currentTime effectiveDemand gates (Suc n) st =
     flights_loop currentTime effectiveDemand gates n
       (attempt_loop currentTime effectiveDemand gates 0 st)"

definition pending_flight :: "int \<Rightarrow> ScheduledFlight \<Rightarrow> bool" where
  "pending_flight currentTime s \<longleftrightarrow> f_status s = Scheduled \<and> scheduledTime s > currentTime"

definition flight_window :: "ScheduledFlight \<Rightarrow> Interval" where
  "flight_window f =
     \<lparr>iv_start = scheduledTime f, iv_end = scheduledTime f + GATE_OCCUPANCY_WINDOW\<rparr>"

text \<open>
  \<^verbatim>\<open>generateSchedule(currentTime, baseDemand)\<close>. It reads the upgrades and the schedule
  from \<^verbatim>\<open>stateRef.current\<close>, the state of the last render, here \<open>ref\<close>.
\<close>

definition generateSchedule ::
  "GameState \<Rightarrow> int \<Rightarrow> real \<Rightarrow> Entropy \<Rightarrow> ScheduledFlight list \<times> Entropy" where
  "generateSchedule ref currentTime baseDemand g =
    (let date = getGameDate currentTime;
         seasonality = schedule_seasonality (monthIndex date);
         effectiveDemand = \<lfloor>baseDemand * seasonality\<rfloor>;
         gates = totalGates (upgrades ref);
         existingFlights = filter (pending_flight currentTime) (schedule ref);
         committed = map flight_window existingFlights;
         numFlights = max 1 \<lceil>of_int effectiveDemand / (12 :: real)\<rceil>;
         st = flights_loop currentTime effectiveDemand gates (nat numFlights)
                \<lparr>committedIntervals = committed, futureFlights = [], sl_entropy = g\<rparr>
     in (sort_key scheduledTime (futureFlights st), sl_entropy st))"

subsection \<open>Physics helpers\<close>

text \<open>
  The only exception the engine can raise: the property read \<^verbatim>\<open>gateNode.x\<close> on the
  result of \<^verbatim>\<open>MAP_NODES.find(...)!\<close>, would it be \<^verbatim>\<open>undefined\<close>.
\<close>

datatype EngineError = TypeError

text \<open>JavaScript truthiness of a \<^verbatim>\<open>string | null\<close>: \<^verbatim>\<open>null\<close> and \<^verbatim>\<open>''\<close> are falsy.\<close>

definition truthy :: "string option \<Rightarrow> bool" where
  "truthy v = (case v of None \<Rightarrow> False | Some str \<Rightarrow> str \<noteq> [])"

definition push_log :: "string \<Rightarrow> string \<Rightarrow> LogType \<Rightarrow> int \<Rightarrow> LogEntry list \<Rightarrow> LogEntry list" where
  "push_log lid msg ty ts entries =
     take 50 (\<lparr>l_id = lid, message = msg, l_type = ty, timestamp = ts\<rparr> # entries)"

definition addLog :: "string \<Rightarrow> LogType \<Rightarrow> GameState \<Rightarrow> Entropy \<Rightarrow> GameState \<times> Entropy" where
  "addLog msg ty prev g =
    (let (lid, g1) = uuidv4 g
     in (prev\<lparr>logs := push_log lid msg ty (gameTime prev) (logs prev)\<rparr>, g1))"

definition togglePause :: "GameState \<Rightarrow> GameState" where
  "togglePause prev = prev\<lparr>paused := \<not> paused prev\<rparr>"

definition createPlane :: "ScheduledFlight \<Rightarrow> Entropy \<Rightarrow> Plane \<times> Entropy" where
  "createPlane flight g =
    (let startPos = \<lparr>pos_x = - 600, pos_y = 750, heading = 90\<rparr>;
         initialWaypoints = [\<lparr>pos_x = 500, pos_y = 750, heading = 90\<rparr>];
         (r_passengers, g1) = Math_random g;
         (r_revenue, g2) = Math_random g1
     in (\<lparr>p_id = f_id flight, p_airline = f_airline flight,
          p_flightNumber = f_flightNumber flight, p_type = f_type flight,
          p_status = APPROACH, position = startPos, waypoints = initialWaypoints,
          targetGateId = None, passengers = \<lfloor>r_passengers * 150\<rfloor> + 50,
          revenue = \<lfloor>r_revenue * 2000\<rfloor> + 500, fuel = 100, timer = 0, history = []\<rparr>, g2))"

definition isRunwayOccupied :: "Plane list \<Rightarrow> string option \<Rightarrow> bool" where
  "isRunwayOccupied ps exceptId =
     list_ex (\<lambda>p.
       if Some (p_id p) = exceptId then False
       else if p_status p = TAKEOFF \<or> p_status p = LANDING then True
       else if pos_y (position p) > 740 \<and> pos_y (position p) < 760
               \<and> pos_x (position p) > 450 \<and> pos_x (position p) < 1800 then True
       else False) ps"

text \<open>\<^verbatim>\<open>!occupancy[g]\<close>: the gate is unbound, bound to \<^verbatim>\<open>null\<close> or to the empty string.\<close>

definition gate_unclaimed :: "Occupancy \<Rightarrow> string \<Rightarrow> bool" where
  "gate_unclaimed occupancy gate = (case occupancy gate of None \<Rightarrow> True | Some v \<Rightarrow> \<not> truthy v)"

definition gate_list :: "TechUpgrade list \<Rightarrow> string list" where
  "gate_list ups = [''gate_1'', ''gate_2'', ''gate_3''] @ (if hasTerminalExp ups then [''gate_4''] else [])"

definition getFreeGate :: "Occupancy \<Rightarrow> TechUpgrade list \<Rightarrow> string option" where
  "getFreeGate occupancy ups = find (gate_unclaimed occupancy) (gate_list ups)"

text \<open>\<^verbatim>\<open>Math.atan2(dy, dx)\<close> on the reals.\<close>

definition atan2 :: "real \<Rightarrow> real \<Rightarrow> real" where
  "atan2 dy dx =
     (if dx > 0 then arctan (dy / dx)
      else if dx < 0 then (if dy \<ge> 0 then arctan (dy / dx) + pi else arctan (dy / dx) - pi)
      else if dy > 0 then pi / 2
      else if dy < 0 then - pi / 2
      else 0)"

text \<open>\<^verbatim>\<open>moveTowards\<close> writes the new position into the plane and returns whether the target was reached.\<close>

definition moveTowards :: "Plane \<Rightarrow> real \<Rightarrow> real \<Rightarrow> real \<Rightarrow> bool \<times> Plane" where
  "moveTowards plane tx ty speed =
    (let dx = tx - pos_x (position plane);
         dy = ty - pos_y (position plane);
         distance = sqrt (dx * dx + dy * dy)
     in if distance < speed
        then (True, plane\<lparr>position := (position plane)\<lparr>pos_x := tx, pos_y := ty\<rparr>\<rparr>)
        else (let angle = atan2 dy dx
              in (False, plane\<lparr>position := (position plane)
                    \<lparr>pos_x := pos_x (position plane) + cos angle * speed,
                     pos_y := pos_y (position plane) + sin angle * speed,
                     heading := angle * 180 / pi\<rparr>\<rparr>)))"

definition SPEED_FACTOR :: real where
  "SPEED_FACTOR = 4"

definition GATE_PARK_DURATION :: int where
  "GATE_PARK_DURATION = 300"

definition gate_waypoints :: "Node \<Rightarrow> Position list" where
  "gate_waypoints gateNode =
     [\<lparr>pos_x = n_x gateNode, pos_y = 850, heading = 180\<rparr>,
      \<lparr>pos_x = n_x gateNode, pos_y = n_y gateNode, heading = 180\<rparr>]"

subsection \<open>updatePlanePhysics\<close>

text \<open>
  The function is split at its three comments: the status logic, which also fixes the speed,
  the movement, and the state transitions. \<open>ups\<close> is \<^verbatim>\<open>stateRef.current.upgrades\<close>.
\<close>

definition approach_logic :: "Plane list \<Rightarrow> Plane \<Rightarrow> Plane" where
  "approach_logic allPlanes updated =
    (if p_status updated = APPROACH then
       (let distanceToRunway = \<bar>pos_x (position updated) - 500\<bar>
        in if distanceToRunway < 300 \<and> distanceToRunway > 100
              \<and> isRunwayOccupied allPlanes (Some (p_id updated))
           then updated\<lparr>p_status := GO_AROUND,
                  waypoints := [\<lparr>pos_x = 500, pos_y = 500, heading = - 45\<rparr>,
                                \<lparr>pos_x = - 500, pos_y = 750, heading = 90\<rparr>,
                                \<lparr>pos_x = 500, pos_y = 750, heading = 90\<rparr>,
                                \<lparr>pos_x = 1500, pos_y = 750, heading = 90\<rparr>],
                  history := history updated @ [''Go Around: Runway Busy'']\<rparr>
           else updated)
     else updated)"

definition incoming_traffic :: "Plane list \<Rightarrow> bool" where
  "incoming_traffic allPlanes =
     list_ex (\<lambda>p. p_status p = APPROACH \<and> pos_x (position p) > - 200) allPlanes"

definition hold_short_logic :: "Plane list \<Rightarrow> Plane \<times> real \<Rightarrow> Plane \<times> real" where
  "hold_short_logic allPlanes us =
    (let (updated, speed) = us
     in if p_status updated = HOLD_SHORT then
          (if \<not> isRunwayOccupied allPlanes (Some (p_id updated)) \<and> \<not> incoming_traffic allPlanes
           then (updated\<lparr>p_status := TAKEOFF,
                   waypoints := [\<lparr>pos_x = 3000, pos_y = 750, heading = 90\<rparr>],
                   history := history updated @ [''Cleared for Takeoff'']\<rparr>, 0)
           else (updated, 0))
        else (updated, speed))"

definition waiting_logic :: "TechUpgrade list \<Rightarrow> Occupancy \<Rightarrow> Plane \<times> real \<Rightarrow> Plane \<times> real" where
  "waiting_logic ups currentOccupancy us =
    (let (updated, speed) = us
     in if p_status updated = WAITING_FOR_GATE then
          (let freeGate = getFreeGate currentOccupancy ups
           in if truthy freeGate then
                (let assigned = updated\<lparr>targetGateId := freeGate, p_status := TAXI_IN\<rparr>
                 in case find (\<lambda>n. Some (n_id n) = freeGate) MAP_NODES of
                      Some gateNode \<Rightarrow> (assigned\<lparr>waypoints := gate_waypoints gateNode\<rparr>, 0)
                    | None \<Rightarrow> (assigned, 0))
              else (updated, 0))
        else (updated, speed))"

definition speed_logic :: "Plane \<times> real \<Rightarrow> real" where
  "speed_logic us =
    (let (updated, speed) = us;
         speed1 = (if p_status updated = TAXI_IN \<or> p_status updated = TAXI_OUT
                   then speed * 0.5 else speed);
         speed2 = (if p_status updated = PARKED \<or> p_status updated = WAITING_FOR_GATE
                   then 0 else speed1);
         speed3 = (if p_status updated = TAKEOFF then speed2 * 3 else speed2);
         speed4 = (if p_status updated = LANDING then speed3 * 2.5 else speed3)
     in speed4 * SPEED_FACTOR)"

definition movement :: "Plane \<Rightarrow> real \<Rightarrow> Plane" where
  "movement updated moveSpeed =
    (case waypoints updated of
       [] \<Rightarrow> updated
     | target # rest \<Rightarrow>
         (let (reached, moved) = moveTowards updated (pos_x target) (pos_y target) moveSpeed
          in if reached then moved\<lparr>waypoints := rest\<rparr> else moved))"

definition state_transitions ::
  "TechUpgrade list \<Rightarrow> Occupancy \<Rightarrow> Plane \<Rightarrow> EngineError + Plane" where
  "state_transitions ups currentOccupancy updated =
    (if waypoints updated = [] then
       (case p_status updated of
          APPROACH \<Rightarrow>
            Inr (updated\<lparr>p_status := LANDING,
                   waypoints := [\<lparr>pos_x = 1300, pos_y = 750, heading = 90\<rparr>]\<rparr>)
        | LANDING \<Rightarrow>
            Inr (updated\<lparr>p_status := TAXI_IN,
                   waypoints := [\<lparr>pos_x = 1300, pos_y = 850, heading = 180\<rparr>]\<rparr>)
        | TAXI_IN \<Rightarrow>
            (if truthy (targetGateId updated) then
               (if pos_y (position updated) > 900
                then Inr (updated\<lparr>p_status := PARKED, timer := GATE_PARK_DURATION\<rparr>)
                else Inr updated)
             else
               (let freeGate = getFreeGate currentOccupancy ups
                in if truthy freeGate then
                     (case find (\<lambda>n. Some (n_id n) = freeGate) MAP_NODES of
                        Some gateNode \<Rightarrow>
                          Inr (updated\<lparr>targetGateId := freeGate,
                                 waypoints := gate_waypoints gateNode\<rparr>)
                      | None \<Rightarrow> Inl TypeError)
                   else Inr (updated\<lparr>p_status := WAITING_FOR_GATE,
                               history := history updated @ [''Waiting for Gate'']\<rparr>)))
        | PARKED \<Rightarrow>
            (if timer updated > 0 then Inr (updated\<lparr>timer := timer updated - 1\<rparr>)
             else Inr (updated\<lparr>p_status := TAXI_OUT, targetGateId := None,
                         waypoints := [\<lparr>pos_x = pos_x (position updated), pos_y = 850, heading = 0\<rparr>,
                                       \<lparr>pos_x = 500, pos_y = 850, heading = 0\<rparr>,
                                       \<lparr>pos_x = 500, pos_y = 800, heading = 0\<rparr>]\<rparr>))
        | TAXI_OUT \<Rightarrow> Inr (updated\<lparr>p_status := HOLD_SHORT, timer := 20\<rparr>)
        | TAKEOFF \<Rightarrow> Inr (updated\<lparr>p_status := DEPARTED\<rparr>)
        | GO_AROUND \<Rightarrow> Inr (updated\<lparr>p_status := APPROACH\<rparr>)
        | _ \<Rightarrow> Inr updated)
     else Inr updated)"

definition initial_speed :: "Plane \<Rightarrow> real" where
  "initial_speed plane =
     (if p_type plane = regional then 3 else if p_type plane = narrowbody then 2.5 else 2)"

definition updatePlanePhysics ::
  "TechUpgrade list \<Rightarrow> Plane \<Rightarrow> Plane list \<Rightarrow> Occupancy \<Rightarrow> EngineError + Plane" where
  "updatePlanePhysics ups plane allPlanes currentOccupancy =
    (let us = waiting_logic ups currentOccupancy
                (hold_short_logic allPlanes (approach_logic allPlanes plane, initial_speed plane));
         moveSpeed = speed_logic us
     in state_transitions ups currentOccupancy (movement (fst us) moveSpeed))"

subsection \<open>The main loop\<close>

record SpawnState =
  sp_newPlanes :: "Plane list"
  sp_logs :: "LogEntry list"
  sp_economy :: Economy
  sp_entropy :: Entropy

text \<open>
  The body of \<^verbatim>\<open>flightsToSpawn.forEach\<close>. The flight object is shared with the schedule, so
  the status written here is the status of the schedule's entry: the updated entry is returned.
\<close>

definition spawn_flight ::
  "nat \<Rightarrow> nat \<Rightarrow> int \<Rightarrow> ScheduledFlight \<Rightarrow> SpawnState \<Rightarrow> ScheduledFlight \<times> SpawnState" where
  "spawn_flight waitingPlanes runwayBacklog now flight st =
    (if waitingPlanes > 2 \<or> runwayBacklog > 3 then
       (let (lid, g1) = uuidv4 (sp_entropy st)
        in (flight\<lparr>f_status := Diverted\<rparr>,
            st\<lparr>sp_logs := push_log lid
                   (''Flight '' @ f_flightNumber flight @ '' diverted (Congestion).'')
                   log_error now (sp_logs st),
               sp_economy := (sp_economy st)
                   \<lparr>reputation := reputation (sp_economy st) - 2,
                    balance := balance (sp_economy st) - 500\<rparr>,
               sp_entropy := g1\<rparr>))
     else
       (let onTime = flight\<lparr>f_status := OnTime\<rparr>;
            (newPlane, g1) = createPlane onTime (sp_entropy st);
            (lid, g2) = uuidv4 g1
        in (onTime,
            st\<lparr>sp_newPlanes := sp_newPlanes st @ [newPlane],
               sp_logs := push_log lid (f_flightNumber flight @ '' on approach.'')
                   log_info now (sp_logs st),
               sp_entropy := g2\<rparr>)))"

text \<open>
  The flights to spawn are the entries of the schedule that are \<open>Scheduled\<close> and due; they
  are visited in the schedule's order.
\<close>

definition due_flight :: "int \<Rightarrow> ScheduledFlight \<Rightarrow> bool" where
  "due_flight now s \<longleftrightarrow> f_status s = Scheduled \<and> scheduledTime s \<le> now"

fun process_spawns ::
  "nat \<Rightarrow> nat \<Rightarrow> int \<Rightarrow> ScheduledFlight list \<Rightarrow> SpawnState
     \<Rightarrow> ScheduledFlight list \<times> SpawnState" where
  "process_spawns waitingPlanes runwayBacklog now [] st = ([], st)"
| "process_spawns waitingPlanes runwayBacklog now (s # rest) st =
    (if due_flight now s then
       (let (s', st1) = spawn_flight waitingPlanes runwayBacklog now s st;
            (rest', st2) = process_spawns waitingPlanes runwayBacklog now rest st1
        in (s' # rest', st2))
     else
       (let (rest', st2) = process_spawns waitingPlanes runwayBacklog now rest st
        in (s # rest', st2)))"

text \<open>Step 4: every key of the occupancy map is reset to \<^verbatim>\<open>null\<close>, then the planes claim.\<close>

definition reset_occupancy :: "Occupancy \<Rightarrow> Occupancy" where
  "reset_occupancy occupancy = (\<lambda>k. case occupancy k of None \<Rightarrow> None | Some v \<Rightarrow> Some None)"

definition claim_gate :: "Plane \<Rightarrow> Occupancy \<Rightarrow> Occupancy" where
  "claim_gate p occupancy =
    (case targetGateId p of
       None \<Rightarrow> occupancy
     | Some gate \<Rightarrow>
         if gate \<noteq> [] \<and> (p_status p = TAXI_IN \<or> p_status p = PARKED
                           \<or> p_status p = WAITING_FOR_GATE)
         then occupancy(gate \<mapsto> Some (p_id p)) else occupancy)"

definition rebuild_occupancy :: "Plane list \<Rightarrow> Occupancy \<Rightarrow> Occupancy" where
  "rebuild_occupancy ps occupancy = fold claim_gate ps (reset_occupancy occupancy)"

record PassState =
  ps_occupancy :: Occupancy
  ps_economy :: Economy
  ps_schedule :: "ScheduledFlight list"
  ps_logs :: "LogEntry list"
  ps_entropy :: Entropy

text \<open>\<^verbatim>\<open>schedule.find(s => s.id === p.id)\<close>, then \<^verbatim>\<open>sFlight.status = 'Departed'\<close>.\<close>

fun mark_departed :: "string \<Rightarrow> ScheduledFlight list \<Rightarrow> ScheduledFlight list" where
  "mark_departed pid [] = []"
| "mark_departed pid (s # rest) =
    (if f_id s = pid then s\<lparr>f_status := Departed\<rparr> # rest else s # mark_departed pid rest)"

text \<open>
  The rest of the callback of \<^verbatim>\<open>allPlanes.map\<close>, after \<^verbatim>\<open>updatePlanePhysics\<close> has returned
  \<open>updatedP\<close> for the plane \<open>p\<close>: the gate claimed in this tick, the revenue event and the
  go-around event.
\<close>

definition gate_claim_event :: "Plane \<Rightarrow> Plane \<Rightarrow> PassState \<Rightarrow> PassState" where
  "gate_claim_event p updatedP st =
    (case targetGateId updatedP of
       None \<Rightarrow> st
     | Some gate \<Rightarrow>
         if gate \<noteq> [] \<and> targetGateId updatedP \<noteq> targetGateId p
         then st\<lparr>ps_occupancy := (ps_occupancy st)(gate \<mapsto> Some (p_id updatedP))\<rparr>
         else st)"

definition revenue_event :: "int \<Rightarrow> Plane \<Rightarrow> Plane \<Rightarrow> PassState \<Rightarrow> PassState" where
  "revenue_event now p updatedP st =
    (if p_status p = PARKED \<and> p_status updatedP = TAXI_OUT then
       (let (lid, g1) = uuidv4 (ps_entropy st)
        in st\<lparr>ps_economy := (ps_economy st)
                   \<lparr>balance := balance (ps_economy st) + of_int (revenue p)\<rparr>,
              ps_schedule := mark_departed (p_id p) (ps_schedule st),
              ps_logs := push_log lid
                   (''Flight '' @ p_flightNumber p @ '' departed. +$'' @ string_of_int (revenue p))
                   log_success now (ps_logs st),
              ps_entropy := g1\<rparr>)
     else st)"

definition go_around_event :: "int \<Rightarrow> Plane \<Rightarrow> Plane \<Rightarrow> PassState \<Rightarrow> PassState" where
  "go_around_event now p updatedP st =
    (if p_status p \<noteq> GO_AROUND \<and> p_status updatedP = GO_AROUND then
       (let (lid, g1) = uuidv4 (ps_entropy st)
        in st\<lparr>ps_logs := push_log lid (p_flightNumber p @ '' Go Around! Runway blocked.'')
                   log_warning now (ps_logs st),
              ps_economy := (ps_economy st)\<lparr>reputation := reputation (ps_economy st) - 1\<rparr>,
              ps_entropy := g1\<rparr>)
     else st)"

definition plane_events :: "int \<Rightarrow> Plane \<Rightarrow> Plane \<Rightarrow> PassState \<Rightarrow> PassState" where
  "plane_events now p updatedP st =
     go_around_event now p updatedP (revenue_event now p updatedP (gate_claim_event p updatedP st))"

text \<open>
  Step 5, \<^verbatim>\<open>allPlanes.map(...)\<close>. The copy \<^verbatim>\<open>{ ...plane }\<close> made by
  \<^verbatim>\<open>updatePlanePhysics\<close> is shallow: it shares the position object with the plane it was
  copied from, and \<^verbatim>\<open>moveTowards\<close> writes into that object. A plane visited later in the
  same pass therefore reads, in \<^verbatim>\<open>allPlanes\<close>, the planes before it with the status they
  had when the tick began and the position they have after their move. \<open>seen\<close> are the
  planes already visited, with their positions so updated; \<open>p # rest\<close> are still to visit.
\<close>

fun physics_pass ::
  "TechUpgrade list \<Rightarrow> int \<Rightarrow> Plane list \<Rightarrow> Plane list \<Rightarrow> PassState
     \<Rightarrow> EngineError + (Plane list \<times> PassState)" where
  "physics_pass ups now seen [] st = Inr ([], st)"
| "physics_pass ups now seen (p # rest) st =
    (case updatePlanePhysics ups p (seen @ p # rest) (ps_occupancy st) of
       Inl e \<Rightarrow> Inl e
     | Inr updatedP \<Rightarrow>
         (case physics_pass ups now (seen @ [p\<lparr>position := position updatedP\<rparr>]) rest
                 (plane_events now p updatedP st) of
            Inl e \<Rightarrow> Inl e
          | Inr (out, st') \<Rightarrow> Inr (updatedP # out, st')))"

text \<open>Step 6, run when \<^verbatim>\<open>gameTime % 1440 === 0\<close>.\<close>

definition organic_growth :: "TechUpgrade list \<Rightarrow> Economy \<Rightarrow> Economy" where
  "organic_growth ups eco =
    (let growth1 = (if reputation eco > 60 then 0.5 else 0);
         growth2 = (if reputation eco < 40 then growth1 - 0.5 else growth1);
         unlockedCount = length (filter unlocked ups);
         growth = growth2 + real unlockedCount * 0.2
     in eco\<lparr>demand := max 10 (min 200 (demand eco + growth))\<rparr>)"

text \<open>
  Steps 2 and 3 of the tick: the congestion counts are taken over the planes of the previous
  state, once, before any flight is looked at.
\<close>

definition spawn_phase ::
  "GameState \<Rightarrow> int \<Rightarrow> ScheduledFlight list \<Rightarrow> Entropy \<Rightarrow> ScheduledFlight list \<times> SpawnState" where
  "spawn_phase prev now sched g =
    (let waitingPlanes = length (filter (\<lambda>p. p_status p = WAITING_FOR_GATE) (planes prev));
         runwayBacklog = length (filter (\<lambda>p. p_status p = HOLD_SHORT) (planes prev))
     in process_spawns waitingPlanes runwayBacklog now sched
          \<lparr>sp_newPlanes = [], sp_logs = logs prev, sp_economy = economy prev, sp_entropy = g\<rparr>)"

text \<open>
  Step 1 of the tick: the schedule is topped up every 360 ticks and whenever it has fewer
  than three entries; what was pending is kept, the new batch is merged in by time.
\<close>

definition schedule_phase ::
  "GameState \<Rightarrow> GameState \<Rightarrow> int \<Rightarrow> Entropy \<Rightarrow> ScheduledFlight list \<times> Entropy" where
  "schedule_phase ref prev now g =
    (if js_rem now 360 = 0 \<or> length (schedule prev) < 3 then
       (let (newFlights, g') = generateSchedule ref now (demand (economy prev)) g;
            pending = filter (pending_flight now) (schedule prev)
        in (sort_key scheduledTime (pending @ newFlights), g'))
     else (schedule prev, g))"

text \<open>
  One tick: the updater passed to \<^verbatim>\<open>setGameState\<close> by the interval callback. \<open>ref\<close>
  is \<^verbatim>\<open>stateRef.current\<close>, read by \<^verbatim>\<open>generateSchedule\<close> and \<^verbatim>\<open>getFreeGate\<close>;
  \<open>prev\<close> is the state the updater receives.
\<close>

definition tick :: "GameState \<Rightarrow> GameState \<Rightarrow> Entropy \<Rightarrow> EngineError + (GameState \<times> Entropy)" where
  "tick ref prev g =
    (let now = gameTime prev + 1;
         (schedule1, g1) = schedule_phase ref prev now g;
         (schedule2, sp) = spawn_phase prev now schedule1 g1;
         occupancy = rebuild_occupancy (planes prev) (gateOccupancy prev);
         allPlanes = planes prev @ sp_newPlanes sp
     in case physics_pass (upgrades ref) now [] allPlanes
               \<lparr>ps_occupancy = occupancy, ps_economy = sp_economy sp, ps_schedule = schedule2,
                ps_logs = sp_logs sp, ps_entropy = sp_entropy sp\<rparr> of
          Inl e \<Rightarrow> Inl e
        | Inr (updatedPlanes, ps) \<Rightarrow>
            Inr (prev\<lparr>gameTime := now,
                      schedule := ps_schedule ps,
                      planes := filter (\<lambda>p. p_status p \<noteq> DEPARTED) updatedPlanes,
                      economy := (if js_rem now 1440 = 0
                                  then organic_growth (upgrades prev) (ps_economy ps)
                                  else ps_economy ps),
                      logs := ps_logs ps,
                      gateOccupancy := ps_occupancy ps\<rparr>,
                 ps_entropy ps))"

text \<open>The interval callback: nothing happens while the game is paused.\<close>

definition interval_callback ::
  "GameState \<Rightarrow> GameState \<Rightarrow> Entropy \<Rightarrow> EngineError + (GameState \<times> Entropy)" where
  "interval_callback ref prev g = (if paused ref then Inr (prev, g) else tick ref prev g)"

text \<open>
  The state the hook starts from. \<open>ai\<close> is \<^verbatim>\<open>!!process.env.API_KEY\<close>.
\<close>

definition initial_state :: "bool \<Rightarrow> GameState" where
  "initial_state ai =
     \<lparr>gameTime = 0, schedule = [], planes = [], economy = INITIAL_ECONOMY,
      upgrades = INITIAL_UPGRADES, logs = [], paused = False, gameSpeed = 1, weather = Sunny,
      windDirection = 90, windSpeed = 10, selectedPlaneId = None, aiEnabled = ai,
      gateOccupancy = [''gate_1'' \<mapsto> None, ''gate_2'' \<mapsto> None, ''gate_3'' \<mapsto> None]\<rparr>"

text \<open>
  \<open>n\<close> ticks in a row, each rendered before the next: \<^verbatim>\<open>stateRef.current\<close> is then the
  state the updater receives.
\<close>

fun run_ticks :: "nat \<Rightarrow> GameState \<Rightarrow> Entropy \<Rightarrow> EngineError + (GameState \<times> Entropy)" where
  "run_ticks 0 s g = Inr (s, g)"
| "run_ticks (Suc n) s g =
    (case run_ticks n s g of
       Inl e \<Rightarrow> Inl e
     | Inr (s1, g1) \<Rightarrow> tick s1 s1 g1)"

subsection \<open>Commands\<close>

definition apply_effect :: "Effect \<Rightarrow> GameState \<Rightarrow> GameState" where
  "apply_effect e s =
    (case e of
       NoEffect \<Rightarrow> s
     | AddDemand n \<Rightarrow> s\<lparr>economy := (economy s)\<lparr>demand := demand (economy s) + n\<rparr>\<rparr>
     | AddTourism n \<Rightarrow> s\<lparr>economy := (economy s)\<lparr>tourismScore := tourismScore (economy s) + n\<rparr>\<rparr>)"

text \<open>
  \<^verbatim>\<open>purchaseUpgrade\<close>: the updater, and the \<^verbatim>\<open>addLog\<close> it queues when the purchase goes
  through, which runs on the state the updater returned.
\<close>

definition purchaseUpgrade :: "string \<Rightarrow> GameState \<Rightarrow> Entropy \<Rightarrow> GameState \<times> Entropy" where
  "purchaseUpgrade uid prev g =
    (case find (\<lambda>u. u_id u = uid) (upgrades prev) of
       None \<Rightarrow> (prev, g)
     | Some upgrade \<Rightarrow>
         if unlocked upgrade \<or> balance (economy prev) < cost upgrade then (prev, g)
         else
           (let newUpgrades = map (\<lambda>u. if u_id u = uid then u\<lparr>unlocked := True\<rparr> else u)
                                (upgrades prev);
                newState = prev\<lparr>economy := (economy prev)
                                   \<lparr>balance := balance (economy prev) - cost upgrade\<rparr>,
                                upgrades := newUpgrades\<rparr>
            in addLog (''Purchased '' @ u_name upgrade) log_success
                 (apply_effect (effect upgrade) newState) g))"

datatype CampaignType = tourism | industry

definition campaign_name :: "CampaignType \<Rightarrow> string" where
  "campaign_name ty = (case ty of tourism \<Rightarrow> ''tourism'' | industry \<Rightarrow> ''industry'')"

definition influenceEconomy :: "CampaignType \<Rightarrow> GameState \<Rightarrow> Entropy \<Rightarrow> GameState \<times> Entropy" where
  "influenceEconomy ty prev g =
    (let campaign_cost = 25000
     in if balance (economy prev) < campaign_cost
        then addLog ''Not enough funds for campaign!'' log_warning prev g
        else
          (let eco1 = (economy prev)\<lparr>balance := balance (economy prev) - campaign_cost\<rparr>;
               eco2 = (if ty = tourism then eco1\<lparr>tourismScore := tourismScore eco1 + 5\<rparr> else eco1);
               eco3 = (if ty = industry then eco2\<lparr>industryScore := industryScore eco2 + 5\<rparr> else eco2);
               eco4 = eco3\<lparr>demand := demand eco3 + 5\<rparr>
           in addLog (''Ran '' @ campaign_name ty @ '' campaign. Demand increased.'') log_info
                (prev\<lparr>economy := eco4\<rparr>) g))"

section \<open>Properties and example states\<close>

subsection \<open>Scheduler capacity\<close>

text \<open>
  The number of gate-occupancy windows that contain the instant \<open>\<tau>\<close>. A window is the
  half-open interval from its start to its end, so a window that ends when another one
  begins does not overlap it.
\<close>

definition overlap_at :: "Interval list \<Rightarrow> real \<Rightarrow> nat" where
  "overlap_at ivs \<tau> =
     length (filter (\<lambda>iv. of_int (iv_start iv) \<le> \<tau> \<and> \<tau> < of_int (iv_end iv)) ivs)"

text \<open>The start and end points of a list of windows, as the sweep builds them.\<close>

definition sweep_points :: "Interval list \<Rightarrow> SweepPoint list" where
  "sweep_points ivs = concat (map (\<lambda>iv. [\<lparr>pt_t = iv_start iv, pt_type = 1\<rparr>,
                                       \<lparr>pt_t = iv_end iv, pt_type = - 1\<rparr>]) ivs)"

text \<open>
  What the two loops of the scheduler keep true: the committed intervals are the windows of
  the pending flights \<open>c0\<close> followed by those of the flights accepted so far, and an instant
  lies in more than \<open>G\<close> of them only if it lay in as many windows of the pending flights.
\<close>

definition sched_inv :: "int \<Rightarrow> Interval list \<Rightarrow> SchedulerLoop \<Rightarrow> bool" where
  "sched_inv G c0 st \<longleftrightarrow>
     committedIntervals st = c0 @ map flight_window (futureFlights st)
     \<and> (\<forall>iv \<in> set c0. iv_start iv \<le> iv_end iv)
     \<and> (\<forall>\<tau>. int (overlap_at (committedIntervals st) \<tau>) \<le> max G (int (overlap_at c0 \<tau>)))"

subsection \<open>Gates\<close>

text \<open>The gates that the planes of a list reference, one entry for each plane that has one.\<close>

abbreviation held :: "Plane list \<Rightarrow> string list" where
  "held ps \<equiv> List.map_filter targetGateId ps"

text \<open>No two planes of the list reference the same gate.\<close>

definition gates_exclusive :: "Plane list \<Rightarrow> bool" where
  "gates_exclusive ps \<longleftrightarrow> distinct (List.map_filter targetGateId ps)"

text \<open>
  A plane that references a gate is taxiing in, parked or waiting for a gate: these are the
  planes that the occupancy snapshot counts.
\<close>

definition gate_ok :: "Plane \<Rightarrow> bool" where
  "gate_ok p \<longleftrightarrow>
     (targetGateId p = None \<or> p_status p = TAXI_IN \<or> p_status p = PARKED
      \<or> p_status p = WAITING_FOR_GATE)"

text \<open>
  The invariant of the engine's states: gates are exclusive, only planes that the snapshot
  counts reference a gate, and no plane and no flight has the empty identifier (the empty
  string is falsy, and a gate bound to it would read as free).
\<close>

definition engine_inv :: "GameState \<Rightarrow> bool" where
  "engine_inv s \<longleftrightarrow>
     gates_exclusive (planes s) \<and> list_all gate_ok (planes s)
     \<and> list_all (\<lambda>p. p_id p \<noteq> []) (planes s)
     \<and> list_all (\<lambda>f. f_id f \<noteq> []) (schedule s)"

text \<open>The plane \<open>p\<close> is counted by the occupancy snapshot as the holder of the gate \<open>k\<close>.\<close>

definition claims_gate :: "Plane \<Rightarrow> string \<Rightarrow> bool" where
  "claims_gate p k \<longleftrightarrow>
     targetGateId p = Some k \<and> k \<noteq> []
     \<and> (p_status p = TAXI_IN \<or> p_status p = PARKED \<or> p_status p = WAITING_FOR_GATE)"

text \<open>
  The planes that may ask \<^verbatim>\<open>getFreeGate\<close> for a gate in a tick: those that wait for one,
  and those that taxi in without one.
\<close>

definition requests_gate :: "Plane \<Rightarrow> bool" where
  "requests_gate p \<longleftrightarrow>
     p_status p = WAITING_FOR_GATE \<or> (p_status p = TAXI_IN \<and> \<not> truthy (targetGateId p))"

text \<open>
  What one call of \<^verbatim>\<open>updatePlanePhysics\<close> may do to the gate of a plane: keep it, drop it,
  or take the gate that \<^verbatim>\<open>getFreeGate\<close> returns.
\<close>

definition gate_step :: "Occupancy \<Rightarrow> TechUpgrade list \<Rightarrow> Plane \<Rightarrow> Plane \<Rightarrow> bool" where
  "gate_step occ ups u u' \<longleftrightarrow>
     p_id u' = p_id u \<and> gate_ok u' \<and>
     (targetGateId u' = targetGateId u \<or> targetGateId u' = None
      \<or> (getFreeGate occ ups \<noteq> None \<and> targetGateId u' = getFreeGate occ ups))"

text \<open>The identifiers of the flights accepted so far come from the stream \<open>U\<close>.\<close>

definition ids_inv :: "(nat \<Rightarrow> string) \<Rightarrow> SchedulerLoop \<Rightarrow> bool" where
  "ids_inv U st \<longleftrightarrow>
     uuids (sl_entropy st) = U \<and> (\<forall>f \<in> set (futureFlights st). f_id f \<in> range U)"

text \<open>
  A plane that is taxiing in without a gate and has no waypoint left after this tick's move:
  it asks for a gate in this tick.
\<close>

definition reaches_apron :: "Plane \<Rightarrow> bool" where
  "reaches_apron p \<longleftrightarrow>
     p_status p = TAXI_IN \<and> targetGateId p = None
     \<and> waypoints (movement p (speed_logic (p, initial_speed p))) = []"

text \<open>A plane that holds short and stands outside the box of the runway.\<close>

definition holding_clear :: "Plane \<Rightarrow> bool" where
  "holding_clear p \<longleftrightarrow>
     p_status p = HOLD_SHORT
     \<and> \<not> (pos_y (position p) > 740 \<and> pos_y (position p) < 760
           \<and> pos_x (position p) > 450 \<and> pos_x (position p) < 1800)"

subsection \<open>Example data\<close>

definition example_entropy :: Entropy where
  "example_entropy =
     \<lparr>randoms = (\<lambda>n. Abs_unit_draw 0), rpos = 0, uuids = (\<lambda>n. ''uuid''), upos = 0\<rparr>"

text \<open>A state in September of the first year (month index 8), with nothing scheduled.\<close>

definition september_state :: GameState where
  "september_state = (initial_state False)\<lparr>gameTime := 172800\<rparr>"

definition example_plane ::
  "string \<Rightarrow> PlaneStatus \<Rightarrow> real \<Rightarrow> real \<Rightarrow> string option \<Rightarrow> int \<Rightarrow> Plane" where
  "example_plane pid st px py gate tm =
     \<lparr>p_id = pid, p_airline = ''EcoJet'', p_flightNumber = ''ECO100'', p_type = regional,
      p_status = st, position = \<lparr>pos_x = px, pos_y = py, heading = 180\<rparr>, waypoints = [],
      targetGateId = gate, passengers = 100, revenue = 1000, fuel = 100, timer = tm,
      history = []\<rparr>"

definition example_flight :: "string \<Rightarrow> int \<Rightarrow> FlightStatus \<Rightarrow> ScheduledFlight" where
  "example_flight fid t st =
     \<lparr>f_id = fid, f_airline = ''EcoJet'', f_flightNumber = ''ECO100'', f_type = regional,
      scheduledTime = t, isArrival = True, f_status = st\<rparr>"

text \<open>
  Two planes are parked at gates 1 and 2. Two more stand at the apron entry, taxiing in
  without a gate: both ask for a gate in the next tick, and only gate 3 is free.
\<close>

definition contention_state :: GameState where
  "contention_state =
     (initial_state False)
     \<lparr>gameTime := 10,
      schedule := [example_flight ''a'' 1 OnTime, example_flight ''b'' 2 OnTime,
                   example_flight ''c'' 3 OnTime, example_flight ''d'' 4 OnTime],
      planes := [example_plane ''a'' PARKED 800 950 (Some ''gate_1'') 100,
                 example_plane ''b'' PARKED 1000 950 (Some ''gate_2'') 100,
                 example_plane ''c'' TAXI_IN 1300 850 None 0,
                 example_plane ''d'' TAXI_IN 1300 850 None 0]\<rparr>"

text \<open>The state of the physics pass over \<open>contention_state\<close> when it begins.\<close>

definition contention_pass :: PassState where
  "contention_pass =
     \<lparr>ps_occupancy = rebuild_occupancy (planes contention_state) (gateOccupancy contention_state),
      ps_economy = economy contention_state, ps_schedule = schedule contention_state,
      ps_logs = [], ps_entropy = example_entropy\<rparr>"

text \<open>
  The three gates are taken, the plane at gate 3 has finished its stay, and a fourth plane
  waits for a gate.
\<close>

definition waiting_state :: GameState where
  "waiting_state =
     (initial_state False)
     \<lparr>gameTime := 10,
      schedule := [example_flight ''a'' 1 OnTime, example_flight ''b'' 2 OnTime,
                   example_flight ''c'' 3 OnTime, example_flight ''w'' 4 OnTime],
      planes := [example_plane ''a'' PARKED 800 950 (Some ''gate_1'') 100,
                 example_plane ''b'' PARKED 1000 950 (Some ''gate_2'') 100,
                 example_plane ''c'' PARKED 1200 950 (Some ''gate_3'') 0,
                 example_plane ''w'' WAITING_FOR_GATE 1300 850 None 0]\<rparr>"

text \<open>
  The planes of \<open>waiting_state\<close> one tick later: the plane at gate 3 has given up its gate
  and taxies out.
\<close>

definition freed_state :: GameState where
  "freed_state =
     waiting_state
     \<lparr>gameTime := 11,
      planes := [example_plane ''a'' PARKED 800 950 (Some ''gate_1'') 99,
                 example_plane ''b'' PARKED 1000 950 (Some ''gate_2'') 99,
                 (example_plane ''c'' TAXI_OUT 1200 950 None 0)
                   \<lparr>waypoints := [\<lparr>pos_x = 1200, pos_y = 850, heading = 0\<rparr>,
                                 \<lparr>pos_x = 500, pos_y = 850, heading = 0\<rparr>,
                                 \<lparr>pos_x = 500, pos_y = 800, heading = 0\<rparr>]\<rparr>,
                 example_plane ''w'' WAITING_FOR_GATE 1300 850 None 0]\<rparr>"

text \<open>The same apron with a second plane waiting behind the first.\<close>

definition queue_state :: GameState where
  "queue_state =
     waiting_state
     \<lparr>schedule := schedule waiting_state @ [example_flight ''v'' 5 OnTime],
      planes := planes waiting_state @ [example_plane ''v'' WAITING_FOR_GATE 1300 850 None 0]\<rparr>"

text \<open>
  An empty airport one tick before the schedule is topped up: the flight \<open>x\<close> is due at
  tick 360, the flights \<open>y\<close> and \<open>z\<close> later.
\<close>

definition regen_state :: GameState where
  "regen_state =
     (initial_state False)
     \<lparr>gameTime := 359,
      schedule := [example_flight ''x'' 360 Scheduled, example_flight ''y'' 500 Scheduled,
                   example_flight ''z'' 600 Scheduled]\<rparr>"

text \<open>
  Two planes hold short of a runway that is clear; nothing is on approach and no flight
  is due.
\<close>

definition holders_state :: GameState where
  "holders_state =
     (initial_state False)
     \<lparr>gameTime := 10,
      schedule := [example_flight ''h'' 1 OnTime, example_flight ''k'' 2 OnTime,
                   example_flight ''y'' 500 Scheduled],
      planes := [example_plane ''h'' HOLD_SHORT 500 800 None 20,
                 example_plane ''k'' HOLD_SHORT 500 800 None 20]\<rparr>"

text \<open>A plane that takes off and is within one step of its last waypoint, and a parked one.\<close>

definition departing_plane :: Plane where
  "departing_plane =
     (example_plane ''t'' TAKEOFF 2990 750 None 0)
     \<lparr>waypoints := [\<lparr>pos_x = 3000, pos_y = 750, heading = 90\<rparr>]\<rparr>"

definition departure_state :: GameState where
  "departure_state =
     (initial_state False)
     \<lparr>gameTime := 10,
      schedule := [example_flight ''a'' 1 OnTime, example_flight ''t'' 2 Departed,
                   example_flight ''x'' 3 Departed],
      planes := [departing_plane, example_plane ''a'' PARKED 800 950 (Some ''gate_1'') 100]\<rparr>"

text \<open>
  A congested airport with a reputation of 1: three planes are parked, three wait for a
  gate, and the flight \<open>x\<close> is due.
\<close>

definition congested_state :: GameState where
  "congested_state =
     (initial_state False)
     \<lparr>gameTime := 10,
      schedule := [example_flight ''x'' 5 Scheduled, example_flight ''y'' 500 Scheduled,
                   example_flight ''z'' 600 Scheduled],
      planes := [example_plane ''a'' PARKED 800 950 (Some ''gate_1'') 100,
                 example_plane ''b'' PARKED 1000 950 (Some ''gate_2'') 100,
                 example_plane ''c'' PARKED 1200 950 (Some ''gate_3'') 100,
                 example_plane ''u'' WAITING_FOR_GATE 1300 850 None 0,
                 example_plane ''v'' WAITING_FOR_GATE 1300 850 None 0,
                 example_plane ''w'' WAITING_FOR_GATE 1300 850 None 0],
      economy := INITIAL_ECONOMY\<lparr>reputation := 1\<rparr>\<rparr>"

text \<open>An empty airport; the flight \<open>x\<close> is due.\<close>

definition arrival_state :: GameState where
  "arrival_state =
     (initial_state False)
     \<lparr>gameTime := 10,
      schedule := [example_flight ''x'' 5 Scheduled, example_flight ''y'' 500 Scheduled,
                   example_flight ''z'' 600 Scheduled]\<rparr>"

text \<open>The last tick of the first day, and an economy near the upper bound of the demand.\<close>

definition midnight_state :: GameState where
  "midnight_state = arrival_state\<lparr>gameTime := 1439\<rparr>"

definition busy_economy :: Economy where
  "busy_economy = INITIAL_ECONOMY\<lparr>demand := 199.8\<rparr>"

text \<open>The initial state with a balance of 500000.\<close>

definition rich_state :: GameState where
  "rich_state = (initial_state False)\<lparr>economy := INITIAL_ECONOMY\<lparr>balance := 500000\<rparr>\<rparr>"

text \<open>A plane on approach that goes around.\<close>

definition approach_plane :: Plane where
  "approach_plane = example_plane ''g'' APPROACH 300 750 None 0"

text \<open>The state of the spawn loop over \<open>congested_state\<close> when it begins.\<close>

definition congested_spawn :: SpawnState where
  "congested_spawn =
     \<lparr>sp_newPlanes = [], sp_logs = [], sp_economy = economy congested_state,
      sp_entropy = example_entropy\<rparr>"


section \<open>Seasonality\<close>






section \<open>The scheduler never overbooks the gates\<close>


lemma sweep_ge_max: "mx \<le> sweep mx cur ps"
proof (induction ps arbitrary: mx cur)
  case Nil
  show ?case by simp
next
  case (Cons p ps)
  have "mx \<le> max mx (cur + pt_type p)" by simp
  also have "\<dots> \<le> sweep (max mx (cur + pt_type p)) (cur + pt_type p) ps" by (rule Cons.IH)
  finally show ?case by simp
qed

lemma sweep_ge_prefix:
  "sorted (map pt_t ps) \<Longrightarrow> cur \<le> mx \<Longrightarrow>
   cur + sum_list (map pt_type (filter (\<lambda>p. real_of_int (pt_t p) \<le> \<tau>) ps)) \<le> sweep mx cur ps"
proof (induction ps arbitrary: mx cur)
  case Nil
  then show ?case by simp
next
  case (Cons p ps)
  show ?case
  proof (cases "real_of_int (pt_t p) \<le> \<tau>")
    case True
    have "cur + pt_type p + sum_list (map pt_type (filter (\<lambda>p. real_of_int (pt_t p) \<le> \<tau>) ps))
          \<le> sweep (max mx (cur + pt_type p)) (cur + pt_type p) ps"
      using Cons.prems by (intro Cons.IH) simp_all
    with True show ?thesis by simp
  next
    case False
    have later: "\<forall>q \<in> set ps. pt_t p \<le> pt_t q" using Cons.prems(1) by simp
    have "filter (\<lambda>p. real_of_int (pt_t p) \<le> \<tau>) ps = []"
    proof (rule filter_False, rule ballI)
      fix q assume "q \<in> set ps"
      with later have "real_of_int (pt_t p) \<le> real_of_int (pt_t q)" by simp
      with False show "\<not> real_of_int (pt_t q) \<le> \<tau>" by linarith
    qed
    with False have "cur + sum_list (map pt_type (filter (\<lambda>p. real_of_int (pt_t p) \<le> \<tau>) (p # ps))) = cur"
      by simp
    also have "cur \<le> mx" by (rule Cons.prems)
    also have "mx \<le> sweep mx cur (p # ps)" by (rule sweep_ge_max)
    finally show ?thesis .
  qed
qed

lemma sorted_by_time: "sorted (map pt_t (sort_key (\<lambda>p. (pt_t p, pt_type p)) ps))"
proof -
  have "sorted (map (\<lambda>p. (pt_t p, pt_type p)) (sort_key (\<lambda>p. (pt_t p, pt_type p)) ps))"
    by (rule sorted_sort_key)
  then have "sorted_wrt (\<lambda>p q. (pt_t p, pt_type p) \<le> (pt_t q, pt_type q))
               (sort_key (\<lambda>p. (pt_t p, pt_type p)) ps)"
    by (simp add: sorted_map)
  then have "sorted_wrt (\<lambda>p q. pt_t p \<le> pt_t q) (sort_key (\<lambda>p. (pt_t p, pt_type p)) ps)"
    by (rule sorted_wrt_mono_rel [rotated]) (auto simp: less_eq_prod_def)
  then show ?thesis by (simp add: sorted_map)
qed

lemma sum_filter_sort_key:
  fixes f :: "'a \<Rightarrow> int"
  shows "sum_list (map f (filter P (sort_key k xs))) = sum_list (map f (filter P xs))"
proof -
  have "mset (map f (filter P (sort_key k xs))) = mset (map f (filter P xs))"
    by simp
  then have "sum_mset (mset (map f (filter P (sort_key k xs)))) = sum_mset (mset (map f (filter P xs)))"
    by (rule arg_cong)
  then show ?thesis by (simp only: sum_mset_sum_list)
qed

lemma sum_points:
  "sum_list (map pt_type (filter (\<lambda>p. real_of_int (pt_t p) \<le> \<tau>) (sweep_points ivs)))
   = int (length (filter (\<lambda>iv. real_of_int (iv_start iv) \<le> \<tau>) ivs))
     - int (length (filter (\<lambda>iv. real_of_int (iv_end iv) \<le> \<tau>) ivs))"
  by (induction ivs) (simp_all add: sweep_points_def)

lemma count_half_open:
  "\<forall>iv \<in> set ivs. iv_start iv \<le> iv_end iv \<Longrightarrow>
   int (length (filter (\<lambda>iv. real_of_int (iv_start iv) \<le> \<tau>) ivs))
     - int (length (filter (\<lambda>iv. real_of_int (iv_end iv) \<le> \<tau>) ivs))
   = int (overlap_at ivs \<tau>)"
proof (induction ivs)
  case Nil
  show ?case by (simp add: overlap_at_def)
next
  case (Cons iv ivs)
  have "real_of_int (iv_start iv) \<le> real_of_int (iv_end iv)" using Cons.prems by simp
  moreover have "int (length (filter (\<lambda>iv. real_of_int (iv_start iv) \<le> \<tau>) ivs))
     - int (length (filter (\<lambda>iv. real_of_int (iv_end iv) \<le> \<tau>) ivs)) = int (overlap_at ivs \<tau>)"
    using Cons by simp
  ultimately show ?case by (auto simp: overlap_at_def)
qed

lemma overlap_le_maxConcurrency:
  assumes "\<forall>iv \<in> set ivs. iv_start iv \<le> iv_end iv"
  shows "int (overlap_at ivs \<tau>) \<le> maxConcurrency ivs"
proof -
  let ?srt = "sort_key (\<lambda>p. (pt_t p, pt_type p)) (sweep_points ivs)"
  have "0 + sum_list (map pt_type (filter (\<lambda>p. real_of_int (pt_t p) \<le> \<tau>) ?srt)) \<le> sweep 0 0 ?srt"
    by (rule sweep_ge_prefix) (simp_all add: sorted_by_time)
  moreover have "sum_list (map pt_type (filter (\<lambda>p. real_of_int (pt_t p) \<le> \<tau>) ?srt))
      = int (overlap_at ivs \<tau>)"
    by (simp only: sum_filter_sort_key sum_points count_half_open [OF assms])
  moreover have "maxConcurrency ivs = sweep 0 0 ?srt"
    by (simp add: maxConcurrency_def sweep_points_def)
  ultimately show ?thesis by simp
qed


lemma sched_inv_committed:
  "sched_inv G c0 st \<Longrightarrow> committedIntervals st = c0 @ map flight_window (futureFlights st)"
  unfolding sched_inv_def by blast

lemma sched_inv_cap:
  "sched_inv G c0 st \<Longrightarrow>
   int (overlap_at (committedIntervals st) \<tau>) \<le> max G (int (overlap_at c0 \<tau>))"
  unfolding sched_inv_def by blast

lemma sched_inv_c0: "sched_inv G c0 st \<Longrightarrow> \<forall>iv \<in> set c0. iv_start iv \<le> iv_end iv"
  unfolding sched_inv_def by blast

lemma sched_invI:
  "committedIntervals st = c0 @ map flight_window (futureFlights st) \<Longrightarrow>
   \<forall>iv \<in> set c0. iv_start iv \<le> iv_end iv \<Longrightarrow>
   \<forall>\<tau>. int (overlap_at (committedIntervals st) \<tau>) \<le> max G (int (overlap_at c0 \<tau>)) \<Longrightarrow>
   sched_inv G c0 st"
  unfolding sched_inv_def by blast

lemma accept_slot_committed:
  "committedIntervals (accept_slot e t st)
     = committedIntervals st @ [\<lparr>iv_start = t, iv_end = t + GATE_OCCUPANCY_WINDOW\<rparr>]"
  by (simp add: accept_slot_def Let_def split: prod.splits)

lemma accept_slot_future:
  "\<exists>f. futureFlights (accept_slot e t st) = futureFlights st @ [f] \<and> scheduledTime f = t"
  by (simp add: accept_slot_def Let_def split: prod.splits)

lemma overlap_at_append: "overlap_at (xs @ ys) \<tau> = overlap_at xs \<tau> + overlap_at ys \<tau>"
  by (simp add: overlap_at_def)

lemma overlap_relevant:
  assumes "real_of_int s \<le> \<tau>" "\<tau> < real_of_int e"
  shows "overlap_at (filter (\<lambda>iv. iv_start iv < e \<and> iv_end iv > s) ivs) \<tau> = overlap_at ivs \<tau>"
proof -
  have "iv_start iv < e \<and> iv_end iv > s"
    if h: "real_of_int (iv_start iv) \<le> \<tau> \<and> \<tau> < real_of_int (iv_end iv)" for iv :: Interval
  proof -
    from h assms have "real_of_int (iv_start iv) < real_of_int e" "real_of_int s < real_of_int (iv_end iv)"
      by linarith+
    then show ?thesis by simp
  qed
  then have "filter (\<lambda>iv. real_of_int (iv_start iv) \<le> \<tau> \<and> \<tau> < real_of_int (iv_end iv))
               (filter (\<lambda>iv. iv_start iv < e \<and> iv_end iv > s) ivs)
             = filter (\<lambda>iv. real_of_int (iv_start iv) \<le> \<tau> \<and> \<tau> < real_of_int (iv_end iv)) ivs"
    by (auto intro: filter_cong)
  then show ?thesis by (simp add: overlap_at_def)
qed

lemma accepted_slot_capacity:
  assumes wf: "\<forall>iv \<in> set ivs. iv_start iv \<le> iv_end iv"
    and cap: "\<forall>\<tau>. int (overlap_at ivs \<tau>) \<le> max G (B \<tau>)"
    and acc: "maxConcurrency (filter (\<lambda>iv. iv_start iv < t + GATE_OCCUPANCY_WINDOW \<and> iv_end iv > t)
                (ivs @ [\<lparr>iv_start = t, iv_end = t + GATE_OCCUPANCY_WINDOW\<rparr>])) \<le> G"
  shows "int (overlap_at (ivs @ [\<lparr>iv_start = t, iv_end = t + GATE_OCCUPANCY_WINDOW\<rparr>]) \<tau>)
           \<le> max G (B \<tau>)"
proof (cases "real_of_int t \<le> \<tau> \<and> \<tau> < real_of_int (t + GATE_OCCUPANCY_WINDOW)")
  case True
  let ?all = "ivs @ [\<lparr>iv_start = t, iv_end = t + GATE_OCCUPANCY_WINDOW\<rparr>]"
  let ?rel = "filter (\<lambda>iv. iv_start iv < t + GATE_OCCUPANCY_WINDOW \<and> iv_end iv > t) ?all"
  have "\<forall>iv \<in> set ?rel. iv_start iv \<le> iv_end iv"
    using wf by (auto simp: GATE_OCCUPANCY_WINDOW_def)
  then have "int (overlap_at ?rel \<tau>) \<le> maxConcurrency ?rel"
    by (rule overlap_le_maxConcurrency)
  moreover have "overlap_at ?rel \<tau> = overlap_at ?all \<tau>"
    using True by (intro overlap_relevant) simp_all
  ultimately show ?thesis using acc by simp
next
  case False
  then have "overlap_at [\<lparr>iv_start = t, iv_end = t + GATE_OCCUPANCY_WINDOW\<rparr>] \<tau> = 0"
    by (auto simp: overlap_at_def)
  then show ?thesis using cap by (simp add: overlap_at_append)
qed

lemma sched_inv_wf:
  assumes "sched_inv G c0 st"
  shows "\<forall>iv \<in> set (committedIntervals st). iv_start iv \<le> iv_end iv"
  using sched_inv_c0 [OF assms]
  by (auto simp: sched_inv_committed [OF assms] flight_window_def GATE_OCCUPANCY_WINDOW_def)

lemma sched_inv_entropy: "sched_inv G c0 (st\<lparr>sl_entropy := g\<rparr>) = sched_inv G c0 st"
  by (simp add: sched_inv_def)

lemma accept_slot_inv:
  assumes inv: "sched_inv G c0 st"
    and acc: "maxConcurrency (filter (\<lambda>iv. iv_start iv < t + GATE_OCCUPANCY_WINDOW \<and> iv_end iv > t)
                (committedIntervals st @ [\<lparr>iv_start = t, iv_end = t + GATE_OCCUPANCY_WINDOW\<rparr>])) \<le> G"
  shows "sched_inv G c0 (accept_slot e t st)"
proof -
  obtain f where f: "futureFlights (accept_slot e t st) = futureFlights st @ [f]" "scheduledTime f = t"
    using accept_slot_future by blast
  have c: "committedIntervals (accept_slot e t st)
        = committedIntervals st @ [\<lparr>iv_start = t, iv_end = t + GATE_OCCUPANCY_WINDOW\<rparr>]"
    by (rule accept_slot_committed)
  have cap: "\<forall>\<tau>. int (overlap_at (committedIntervals st) \<tau>) \<le> max G (int (overlap_at c0 \<tau>))"
    using sched_inv_cap [OF inv] by blast
  have "\<forall>\<tau>. int (overlap_at (committedIntervals (accept_slot e t st)) \<tau>)
          \<le> max G (int (overlap_at c0 \<tau>))"
    unfolding c using accepted_slot_capacity [OF sched_inv_wf [OF inv] cap acc] by blast
  moreover have "committedIntervals (accept_slot e t st)
      = c0 @ map flight_window (futureFlights (accept_slot e t st))"
    using f by (simp add: c sched_inv_committed [OF inv] flight_window_def)
  ultimately show ?thesis using sched_inv_c0 [OF inv] by (intro sched_invI)
qed

lemma attempt_loop_inv:
  "sched_inv G c0 st \<Longrightarrow> sched_inv G c0 (attempt_loop t e G attempts st)"
proof (induction "15 - attempts" arbitrary: attempts st)
  case 0
  then have "\<not> attempts < 15" by simp
  then show ?case using "0.prems" by (subst attempt_loop.simps) simp
next
  case (Suc k)
  then have lt: "attempts < 15" and k: "k = 15 - (attempts + 1)" by simp_all
  obtain r g1 where rg: "Math_random (sl_entropy st) = (r, g1)"
    by (cases "Math_random (sl_entropy st)")
  let ?t = "t + \<lfloor>r * 360\<rfloor> + 60"
  let ?rel = "filter (\<lambda>iv. iv_start iv < ?t + GATE_OCCUPANCY_WINDOW \<and> iv_end iv > ?t)
               (committedIntervals st @ [\<lparr>iv_start = ?t, iv_end = ?t + GATE_OCCUPANCY_WINDOW\<rparr>])"
  have inv1: "sched_inv G c0 (st\<lparr>sl_entropy := g1\<rparr>)"
    using Suc.prems by (simp add: sched_inv_entropy)
  have unfold: "attempt_loop t e G attempts st =
      (if maxConcurrency ?rel \<le> G then accept_slot e ?t (st\<lparr>sl_entropy := g1\<rparr>)
       else attempt_loop t e G (attempts + 1) (st\<lparr>sl_entropy := g1\<rparr>))"
    using lt rg by (subst attempt_loop.simps) (simp only: Let_def if_True split_conv)
  show ?case
  proof (cases "maxConcurrency ?rel \<le> G")
    case True
    have "sched_inv G c0 (accept_slot e ?t (st\<lparr>sl_entropy := g1\<rparr>))"
      using inv1 True by (intro accept_slot_inv) simp_all
    then show ?thesis using True by (simp only: unfold if_True)
  next
    case False
    have "sched_inv G c0 (attempt_loop t e G (attempts + 1) (st\<lparr>sl_entropy := g1\<rparr>))"
      using k inv1 by (rule Suc.hyps(1))
    then show ?thesis using False by (simp only: unfold if_False)
  qed
qed

lemma flights_loop_inv:
  "sched_inv G c0 st \<Longrightarrow> sched_inv G c0 (flights_loop t e G n st)"
  by (induction n arbitrary: st) (simp_all add: attempt_loop_inv)

lemma overlap_at_perm: "mset xs = mset ys \<Longrightarrow> overlap_at xs \<tau> = overlap_at ys \<tau>"
proof -
  assume "mset xs = mset ys"
  then have "mset (filter (\<lambda>iv. of_int (iv_start iv) \<le> \<tau> \<and> \<tau> < of_int (iv_end iv)) xs)
           = mset (filter (\<lambda>iv. of_int (iv_start iv) \<le> \<tau> \<and> \<tau> < of_int (iv_end iv)) ys)"
    by simp
  then show ?thesis unfolding overlap_at_def by (rule mset_eq_length)
qed

text \<open>
  Claim C2. Take the windows \<open>[t, t + 450)\<close> of the flights that are still pending when
  \<^verbatim>\<open>generateSchedule\<close> is called, together with the windows of the flights of the batch it
  returns. An instant lies in more of these windows than there are gates (3, or 4 with the
  terminal expansion) only if it lay in as many windows of the pending flights alone. So if
  no instant lay in more windows of the pending flights than there are gates, none lies in
  more windows of the pending and the new flights together. The schedule is empty at the
  start, and the pending flights of a later call are among the pending and new flights of an
  earlier one.
\<close>

theorem generateSchedule_capacity:
  assumes gen: "generateSchedule ref t d g = (batch, g')"
  shows "(\<forall>\<tau>. int (overlap_at (map flight_window
                  (filter (pending_flight t) (schedule ref) @ batch)) \<tau>)
              \<le> max (totalGates (upgrades ref))
                    (int (overlap_at (map flight_window
                       (filter (pending_flight t) (schedule ref))) \<tau>)))
     \<and> ((\<forall>\<tau>. int (overlap_at (map flight_window
                    (filter (pending_flight t) (schedule ref))) \<tau>)
                \<le> totalGates (upgrades ref))
        \<longrightarrow> (\<forall>\<tau>. int (overlap_at (map flight_window
                    (filter (pending_flight t) (schedule ref) @ batch)) \<tau>)
                \<le> totalGates (upgrades ref)))"
proof -
  let ?base = "map flight_window (filter (pending_flight t) (schedule ref))"
  let ?G = "totalGates (upgrades ref)"
  let ?e = "\<lfloor>d * schedule_seasonality (monthIndex (getGameDate t))\<rfloor>"
  let ?init = "\<lparr>committedIntervals = ?base, futureFlights = [], sl_entropy = g\<rparr>"
  let ?st = "flights_loop t ?e ?G (nat (max 1 \<lceil>of_int ?e / (12 :: real)\<rceil>)) ?init"
  let ?new = "map flight_window (filter (pending_flight t) (schedule ref) @ batch)"
  have "sched_inv ?G ?base ?init"
    by (intro sched_invI) (simp_all add: flight_window_def GATE_OCCUPANCY_WINDOW_def)
  then have inv: "sched_inv ?G ?base ?st" by (rule flights_loop_inv)
  have batch: "batch = sort_key scheduledTime (futureFlights ?st)"
    using gen by (simp add: generateSchedule_def Let_def)
  have "mset ?new = mset (committedIntervals ?st)"
    by (simp add: batch sched_inv_committed [OF inv])
  then have same: "overlap_at ?new \<tau> = overlap_at (committedIntervals ?st) \<tau>" for \<tau>
    by (rule overlap_at_perm)
  have bound: "int (overlap_at ?new \<tau>) \<le> max ?G (int (overlap_at ?base \<tau>))" for \<tau>
    using sched_inv_cap [OF inv, of \<tau>] by (simp only: same)
  have "int (overlap_at ?new \<tau>) \<le> ?G" if pre: "\<forall>\<tau>. int (overlap_at ?base \<tau>) \<le> ?G" for \<tau>
  proof -
    from pre have "int (overlap_at ?base \<tau>) \<le> ?G" by (rule spec)
    then have "max ?G (int (overlap_at ?base \<tau>)) = ?G" by (rule max_absorb1)
    then show ?thesis using bound [of \<tau>] by simp
  qed
  with bound show ?thesis by blast
qed

text \<open>
  The scheduler pass of the first tick: nothing is pending, the demand is 40, three gates.
\<close>

theorem generateSchedule_capacity_witness:
  "(\<forall>\<tau>. int (overlap_at (map flight_window
            (filter (pending_flight 1) (schedule (initial_state False)))) \<tau>)
         \<le> totalGates (upgrades (initial_state False)))
   \<and> (\<forall>\<tau>. int (overlap_at (map flight_window
            (filter (pending_flight 1) (schedule (initial_state False))
             @ fst (generateSchedule (initial_state False) 1 40 example_entropy))) \<tau>) \<le> 3)"
proof -
  have gates: "totalGates (upgrades (initial_state False)) = 3"
    by (simp add: totalGates_def hasTerminalExp_def initial_state_def INITIAL_UPGRADES_def)
  have pre: "\<forall>\<tau>. int (overlap_at (map flight_window
            (filter (pending_flight 1) (schedule (initial_state False)))) \<tau>)
         \<le> totalGates (upgrades (initial_state False))"
    by (simp add: gates) (simp add: initial_state_def overlap_at_def)
  have gen: "generateSchedule (initial_state False) 1 40 example_entropy
      = (fst (generateSchedule (initial_state False) 1 40 example_entropy),
         snd (generateSchedule (initial_state False) 1 40 example_entropy))"
    by simp
  show ?thesis
    using pre generateSchedule_capacity [OF gen] by (simp only: gates) simp
qed

section \<open>Gates are never shared\<close>

subsection \<open>One plane, one gate step\<close>

lemma gate_list_nonempty_names: "g \<in> set (gate_list ups) \<Longrightarrow> g \<noteq> []"
  by (auto simp: gate_list_def split: if_splits)

lemma gate_node_found:
  "g \<in> set (gate_list ups) \<Longrightarrow> \<exists>n. find (\<lambda>n. Some (n_id n) = Some g) MAP_NODES = Some n"
  by (auto simp: gate_list_def MAP_NODES_def split: if_splits)

lemma getFreeGate_Some:
  "getFreeGate occ ups = Some g \<Longrightarrow> g \<in> set (gate_list ups) \<and> gate_unclaimed occ g"
  unfolding getFreeGate_def by (auto simp: find_Some_iff)

lemma getFreeGate_None:
  "getFreeGate occ ups = None \<longleftrightarrow> (\<forall>g \<in> set (gate_list ups). \<not> gate_unclaimed occ g)"
  unfolding getFreeGate_def by (auto simp: find_None_iff)

lemma truthy_getFreeGate: "truthy (getFreeGate occ ups) \<longleftrightarrow> getFreeGate occ ups \<noteq> None"
proof (cases "getFreeGate occ ups")
  case None
  then show ?thesis by (simp add: truthy_def)
next
  case (Some g)
  then have "g \<noteq> []" using getFreeGate_Some gate_list_nonempty_names by blast
  with Some show ?thesis by (simp add: truthy_def)
qed

lemma moveTowards_frame:
  "p_id (snd (moveTowards u tx ty v)) = p_id u"
  "p_status (snd (moveTowards u tx ty v)) = p_status u"
  "targetGateId (snd (moveTowards u tx ty v)) = targetGateId u"
  "timer (snd (moveTowards u tx ty v)) = timer u"
  "waypoints (snd (moveTowards u tx ty v)) = waypoints u"
  by (simp_all add: moveTowards_def Let_def)

lemma movement_frame:
  "p_id (movement u v) = p_id u"
  "p_status (movement u v) = p_status u"
  "targetGateId (movement u v) = targetGateId u"
  "timer (movement u v) = timer u"
  by (simp_all add: movement_def moveTowards_frame split_beta split: list.splits)

lemma approach_logic_frame:
  "p_id (approach_logic all u) = p_id u"
  "targetGateId (approach_logic all u) = targetGateId u"
  "timer (approach_logic all u) = timer u"
  "p_type (approach_logic all u) = p_type u"
  by (simp_all add: approach_logic_def Let_def)

lemma approach_logic_status:
  "p_status (approach_logic all u) = p_status u
   \<or> (p_status u = APPROACH \<and> p_status (approach_logic all u) = GO_AROUND)"
  by (simp add: approach_logic_def Let_def)

lemma hold_short_logic_frame:
  "p_id (fst (hold_short_logic all (u, v))) = p_id u"
  "targetGateId (fst (hold_short_logic all (u, v))) = targetGateId u"
  "timer (fst (hold_short_logic all (u, v))) = timer u"
  by (simp_all add: hold_short_logic_def)

lemma hold_short_logic_status:
  "p_status (fst (hold_short_logic all (u, v))) = p_status u
   \<or> (p_status u = HOLD_SHORT \<and> p_status (fst (hold_short_logic all (u, v))) = TAKEOFF)"
  by (simp add: hold_short_logic_def)

lemma waiting_logic_id: "p_id (fst (waiting_logic ups occ (u, v))) = p_id u"
  by (simp add: waiting_logic_def Let_def split: option.splits)

lemma waiting_logic_other:
  "p_status u \<noteq> WAITING_FOR_GATE \<Longrightarrow> waiting_logic ups occ (u, v) = (u, v)"
  by (simp add: waiting_logic_def)

lemma waiting_logic_blocked:
  "p_status u = WAITING_FOR_GATE \<Longrightarrow> getFreeGate occ ups = None \<Longrightarrow>
   waiting_logic ups occ (u, v) = (u, 0)"
  by (simp add: waiting_logic_def truthy_def)

lemma waiting_logic_assigned:
  assumes "p_status u = WAITING_FOR_GATE" "getFreeGate occ ups = Some g"
  shows "\<exists>n. find (\<lambda>n. Some (n_id n) = Some g) MAP_NODES = Some n
           \<and> waiting_logic ups occ (u, v)
             = (u\<lparr>targetGateId := Some g, p_status := TAXI_IN, waypoints := gate_waypoints n\<rparr>, 0)"
proof -
  from assms(2) have g: "g \<in> set (gate_list ups)" by (simp add: getFreeGate_Some)
  then obtain n where n: "find (\<lambda>n. Some (n_id n) = Some g) MAP_NODES = Some n"
    using gate_node_found by blast
  have "truthy (getFreeGate occ ups)" unfolding truthy_getFreeGate using assms(2) by simp
  then show ?thesis using assms n by (simp add: waiting_logic_def Let_def)
qed

text \<open>What one call of the state-transition switch does to the gate and the status.\<close>

lemma state_transitions_total: "\<exists>u'. state_transitions ups occ u = Inr u'"
proof (cases "waypoints u = [] \<and> p_status u = TAXI_IN \<and> \<not> truthy (targetGateId u)
              \<and> truthy (getFreeGate occ ups)")
  case True
  then obtain g where g: "getFreeGate occ ups = Some g"
    by (auto simp: truthy_getFreeGate)
  then obtain n where "find (\<lambda>n. Some (n_id n) = Some g) MAP_NODES = Some n"
    using gate_node_found getFreeGate_Some by blast
  then show ?thesis using True g by (simp add: state_transitions_def Let_def)
next
  case False
  then show ?thesis
    by (cases "p_status u") (auto simp: state_transitions_def Let_def)
qed

lemma state_transitions_id: "state_transitions ups occ u = Inr u' \<Longrightarrow> p_id u' = p_id u"
  by (cases "p_status u")
     (auto simp: state_transitions_def Let_def split: if_splits option.splits)

lemma gate_step_refl: "gate_ok u \<Longrightarrow> gate_step occ ups u u"
  by (simp add: gate_step_def)

lemma gate_step_trans:
  "gate_step occ ups u v \<Longrightarrow> gate_step occ ups v w \<Longrightarrow> gate_step occ ups u w"
  unfolding gate_step_def by auto

lemma approach_logic_gate_step: "gate_ok u \<Longrightarrow> gate_step occ ups u (approach_logic all u)"
  by (auto simp: gate_step_def gate_ok_def approach_logic_def Let_def)

lemma hold_short_logic_gate_step:
  "gate_ok u \<Longrightarrow> gate_step occ ups u (fst (hold_short_logic all (u, v)))"
  by (auto simp: gate_step_def gate_ok_def hold_short_logic_def)

lemma waiting_logic_gate_step:
  assumes "gate_ok u"
  shows "gate_step occ ups u (fst (waiting_logic ups occ (u, v)))"
proof (cases "p_status u = WAITING_FOR_GATE")
  case False
  then show ?thesis using assms by (simp add: waiting_logic_other gate_step_refl)
next
  case True
  show ?thesis
  proof (cases "getFreeGate occ ups")
    case None
    then show ?thesis using True assms by (simp add: waiting_logic_blocked gate_step_refl)
  next
    case (Some g)
    from waiting_logic_assigned [OF True Some, of v] obtain n where
      "waiting_logic ups occ (u, v)
        = (u\<lparr>targetGateId := Some g, p_status := TAXI_IN, waypoints := gate_waypoints n\<rparr>, 0)"
      by blast
    then show ?thesis using Some by (simp add: gate_step_def gate_ok_def)
  qed
qed

lemma movement_gate_step: "gate_ok u \<Longrightarrow> gate_step occ ups u (movement u v)"
  by (simp add: gate_step_def gate_ok_def movement_frame)

lemma state_transitions_gate_step:
  assumes "gate_ok u" "state_transitions ups occ u = Inr u'"
  shows "gate_step occ ups u u'"
  using assms
  by (cases "p_status u")
     (auto simp: gate_step_def gate_ok_def state_transitions_def Let_def truthy_getFreeGate
           split: if_splits option.splits)

lemma gate_step_ok: "gate_step occ ups u u' \<Longrightarrow> gate_ok u'"
  by (simp add: gate_step_def)

lemma updatePlanePhysics_total: "\<exists>p'. updatePlanePhysics ups p all occ = Inr p'"
  by (simp add: updatePlanePhysics_def Let_def state_transitions_total)

lemma updatePlanePhysics_gate_step:
  assumes ok: "gate_ok p" and res: "updatePlanePhysics ups p all occ = Inr p'"
  shows "gate_step occ ups p p'"
proof -
  let ?u0 = "approach_logic all p"
  let ?h = "hold_short_logic all (?u0, initial_speed p)"
  let ?w = "waiting_logic ups occ ?h"
  let ?m = "movement (fst ?w) (speed_logic ?w)"
  have s0: "gate_step occ ups p ?u0" using ok by (rule approach_logic_gate_step)
  have s1: "gate_step occ ups ?u0 (fst ?h)"
    using gate_step_ok [OF s0] by (rule hold_short_logic_gate_step)
  have s2: "gate_step occ ups (fst ?h) (fst ?w)"
    using waiting_logic_gate_step [OF gate_step_ok [OF s1], of occ ups "snd ?h"] by simp
  have s3: "gate_step occ ups (fst ?w) ?m"
    using gate_step_ok [OF s2] by (rule movement_gate_step)
  have "state_transitions ups occ ?m = Inr p'"
    using res by (simp add: updatePlanePhysics_def Let_def)
  then have s4: "gate_step occ ups ?m p'"
    using gate_step_ok [OF s3] by (intro state_transitions_gate_step)
  show ?thesis
    using s0 s1 s2 s3 s4 by (blast intro: gate_step_trans)
qed

lemma held_Cons: "held (p # ps) = (case targetGateId p of None \<Rightarrow> [] | Some g \<Rightarrow> [g]) @ held ps"
  by (simp add: List.map_filter_simps split: option.splits)

lemma held_Nil: "held [] = []"
  by (simp add: List.map_filter_simps)

lemma held_append: "held (xs @ ys) = held xs @ held ys"
  by (simp add: List.map_filter_def)

lemma set_held: "g \<in> set (held ps) \<longleftrightarrow> (\<exists>p \<in> set ps. targetGateId p = Some g)"
  by (induction ps) (auto simp: held_Cons held_Nil split: option.splits)

lemma claimed_update:
  "pid \<noteq> [] \<Longrightarrow> \<not> gate_unclaimed occ g \<Longrightarrow> \<not> gate_unclaimed (occ(k \<mapsto> Some pid)) g"
  by (simp add: gate_unclaimed_def truthy_def)

lemma claimed_new: "pid \<noteq> [] \<Longrightarrow> \<not> gate_unclaimed (occ(k \<mapsto> Some pid)) k"
  by (simp add: gate_unclaimed_def truthy_def)

lemma plane_events_occupancy:
  "ps_occupancy (plane_events now p p' st) = ps_occupancy (gate_claim_event p p' st)"
  by (simp add: plane_events_def go_around_event_def revenue_event_def split_beta)

lemma gate_claim_event_keeps:
  "p_id p' \<noteq> [] \<Longrightarrow> \<not> gate_unclaimed (ps_occupancy st) g \<Longrightarrow>
   \<not> gate_unclaimed (ps_occupancy (gate_claim_event p p' st)) g"
  by (simp add: gate_claim_event_def claimed_update split: option.splits)

lemma gate_claim_event_new:
  "p_id p' \<noteq> [] \<Longrightarrow> targetGateId p' = Some g \<Longrightarrow> g \<noteq> [] \<Longrightarrow> targetGateId p \<noteq> Some g \<Longrightarrow>
   \<not> gate_unclaimed (ps_occupancy (gate_claim_event p p' st)) g"
  by (simp add: gate_claim_event_def claimed_new)

lemma physics_pass_gates:
  assumes "\<forall>p \<in> set rest. gate_ok p \<and> p_id p \<noteq> []"
    and "distinct (A @ held rest)"
    and "\<forall>g \<in> set A \<union> set (held rest). g \<noteq> [] \<longrightarrow> \<not> gate_unclaimed (ps_occupancy st) g"
  shows "\<exists>out st'. physics_pass ups now seen rest st = Inr (out, st')
           \<and> distinct (A @ held out)
           \<and> (\<forall>p \<in> set out. gate_ok p \<and> p_id p \<noteq> [])"
  using assms
proof (induction rest arbitrary: seen st A)
  case Nil
  then show ?case by (simp add: held_Nil)
next
  case (Cons p rest)
  let ?occ = "ps_occupancy st"
  obtain p' where p': "updatePlanePhysics ups p (seen @ p # rest) ?occ = Inr p'"
    using updatePlanePhysics_total by blast
  have okp: "gate_ok p" and idp: "p_id p \<noteq> []" using Cons.prems(1) by simp_all
  have step: "gate_step ?occ ups p p'" using okp p' by (rule updatePlanePhysics_gate_step)
  then have idp': "p_id p' \<noteq> []" and okp': "gate_ok p'" using idp by (simp_all add: gate_step_def)
  let ?mine = "case targetGateId p' of None \<Rightarrow> [] | Some g \<Rightarrow> [g]"
  let ?st1 = "plane_events now p p' st"
  have claimed: "\<And>g. g \<in> set A \<union> set (held (p # rest)) \<Longrightarrow> g \<noteq> [] \<Longrightarrow> \<not> gate_unclaimed ?occ g"
    using Cons.prems(3) by blast
  have cases3: "targetGateId p' = targetGateId p \<or> targetGateId p' = None
      \<or> (\<exists>g. getFreeGate ?occ ups = Some g \<and> targetGateId p' = Some g)"
    using step by (auto simp: gate_step_def)
  have fresh: "g \<notin> set A \<union> set (held (p # rest)) \<and> g \<noteq> []" if "getFreeGate ?occ ups = Some g" for g
  proof -
    from that have "g \<in> set (gate_list ups)" "gate_unclaimed ?occ g"
      by (simp_all add: getFreeGate_Some)
    then show ?thesis using claimed gate_list_nonempty_names by blast
  qed
  have d1: "distinct ((A @ ?mine) @ held rest)"
  proof -
    from cases3 consider (keep) "targetGateId p' = targetGateId p" | (none) "targetGateId p' = None"
      | (new) g where "getFreeGate ?occ ups = Some g" "targetGateId p' = Some g" by auto
    then show ?thesis
    proof cases
      case keep
      then show ?thesis using Cons.prems(2) by (cases "targetGateId p") (auto simp: held_Cons)
    next
      case none
      then show ?thesis using Cons.prems(2) by (cases "targetGateId p") (auto simp: held_Cons)
    next
      case new
      then show ?thesis using Cons.prems(2) fresh [OF new(1)]
        by (cases "targetGateId p") (auto simp: held_Cons)
    qed
  qed
  have c1: "\<forall>g \<in> set (A @ ?mine) \<union> set (held rest). g \<noteq> [] \<longrightarrow> \<not> gate_unclaimed (ps_occupancy ?st1) g"
  proof (intro ballI impI)
    fix g assume g: "g \<in> set (A @ ?mine) \<union> set (held rest)" and ne: "g \<noteq> []"
    show "\<not> gate_unclaimed (ps_occupancy ?st1) g"
    proof (cases "g \<in> set A \<union> set (held (p # rest))")
      case True
      then have "\<not> gate_unclaimed ?occ g" using claimed ne by blast
      then show ?thesis
        unfolding plane_events_occupancy using idp' by (intro gate_claim_event_keeps)
    next
      case False
      with g have mine: "targetGateId p' = Some g" by (auto simp: held_Cons split: option.splits)
      from False have "targetGateId p \<noteq> Some g" by (auto simp: held_Cons)
      then show ?thesis
        unfolding plane_events_occupancy using mine ne idp' by (intro gate_claim_event_new)
    qed
  qed
  have r1: "\<forall>q \<in> set rest. gate_ok q \<and> p_id q \<noteq> []" using Cons.prems(1) by simp
  from Cons.IH [OF r1 d1 c1, of "seen @ [p\<lparr>position := position p'\<rparr>]"]
  obtain out st' where out:
    "physics_pass ups now (seen @ [p\<lparr>position := position p'\<rparr>]) rest ?st1 = Inr (out, st')"
    "distinct ((A @ ?mine) @ held out)" "\<forall>q \<in> set out. gate_ok q \<and> p_id q \<noteq> []"
    by blast
  have "physics_pass ups now seen (p # rest) st = Inr (p' # out, st')"
    using p' out(1) by simp
  moreover have "distinct (A @ held (p' # out))"
    using out(2) by (cases "targetGateId p'") (auto simp: held_Cons)
  moreover have "\<forall>q \<in> set (p' # out). gate_ok q \<and> p_id q \<noteq> []" using out(3) okp' idp' by simp
  ultimately show ?case by blast
qed

subsection \<open>Identifiers\<close>

lemma uuidv4_uuids [simp]: "uuids (snd (uuidv4 g)) = uuids g"
  by (simp add: uuidv4_def)

lemma uuidv4_range: "fst (uuidv4 g) \<in> range (uuids g)"
  by (simp add: uuidv4_def)

lemma Math_random_uuids [simp]: "uuids (snd (Math_random g)) = uuids g"
  by (simp add: Math_random_def)

lemma accept_slot_ids: "ids_inv U st \<Longrightarrow> ids_inv U (accept_slot e t st)"
  unfolding ids_inv_def accept_slot_def
  by (auto simp: Let_def split_beta uuidv4_def Math_random_def)

lemma ids_inv_random: "ids_inv U st \<Longrightarrow> ids_inv U (st\<lparr>sl_entropy := snd (Math_random (sl_entropy st))\<rparr>)"
  by (simp add: ids_inv_def)

lemma attempt_loop_ids: "ids_inv U st \<Longrightarrow> ids_inv U (attempt_loop t e G attempts st)"
proof (induction "15 - attempts" arbitrary: attempts st)
  case 0
  then have "\<not> attempts < 15" by simp
  then show ?case using "0.prems" by (subst attempt_loop.simps) simp
next
  case (Suc k)
  then have lt: "attempts < 15" and k: "k = 15 - (attempts + 1)" by simp_all
  let ?st1 = "st\<lparr>sl_entropy := snd (Math_random (sl_entropy st))\<rparr>"
  have inv1: "ids_inv U ?st1" using Suc.prems by (rule ids_inv_random)
  have a: "ids_inv U (accept_slot e x ?st1)" for x using inv1 by (rule accept_slot_ids)
  have b: "ids_inv U (attempt_loop t e G (attempts + 1) ?st1)" using k inv1 by (rule Suc.hyps(1))
  show ?case using lt a b
    by (subst attempt_loop.simps) (simp add: Let_def split_beta)
qed

lemma flights_loop_ids: "ids_inv U st \<Longrightarrow> ids_inv U (flights_loop t e G n st)"
  by (induction n arbitrary: st) (simp_all add: attempt_loop_ids)

lemma generateSchedule_ids:
  "generateSchedule ref t d g = (batch, g') \<Longrightarrow>
   uuids g' = uuids g \<and> (\<forall>f \<in> set batch. f_id f \<in> range (uuids g))"
proof -
  assume gen: "generateSchedule ref t d g = (batch, g')"
  let ?init = "\<lparr>committedIntervals = map flight_window (filter (pending_flight t) (schedule ref)),
                futureFlights = [], sl_entropy = g\<rparr>"
  have "ids_inv (uuids g) ?init" by (simp add: ids_inv_def)
  then have "ids_inv (uuids g) (flights_loop t e G n ?init)" for e G n by (rule flights_loop_ids)
  then show ?thesis using gen by (auto simp: generateSchedule_def Let_def ids_inv_def)
qed

lemma mark_departed_ids [simp]: "map f_id (mark_departed pid xs) = map f_id xs"
  by (induction xs) simp_all

lemma plane_events_frame:
  "map f_id (ps_schedule (plane_events now p p' st)) = map f_id (ps_schedule st)"
  "uuids (ps_entropy (plane_events now p p' st)) = uuids (ps_entropy st)"
  by (simp_all add: plane_events_def go_around_event_def revenue_event_def gate_claim_event_def
        split_beta split: option.splits)

lemma physics_pass_frame:
  "physics_pass ups now seen rest st = Inr (out, st') \<Longrightarrow>
   map f_id (ps_schedule st') = map f_id (ps_schedule st)
   \<and> uuids (ps_entropy st') = uuids (ps_entropy st)"
proof (induction rest arbitrary: seen st out)
  case Nil
  then show ?case by simp
next
  case (Cons p rest)
  from Cons.prems obtain p' out' where
    "physics_pass ups now (seen @ [p\<lparr>position := position p'\<rparr>]) rest (plane_events now p p' st)
       = Inr (out', st')"
    by (auto split: sum.splits)
  from Cons.IH [OF this] show ?case by (simp add: plane_events_frame)
qed

lemma createPlane_props:
  "p_id (fst (createPlane f g)) = f_id f"
  "targetGateId (fst (createPlane f g)) = None"
  "uuids (snd (createPlane f g)) = uuids g"
  by (simp_all add: createPlane_def Let_def split_beta Math_random_def)

lemma spawn_flight_props:
  assumes "spawn_flight w b now f st = (f', st')"
  shows "f_id f' = f_id f" "uuids (sp_entropy st') = uuids (sp_entropy st)"
    "\<forall>p \<in> set (sp_newPlanes st'). p \<in> set (sp_newPlanes st) \<or> (targetGateId p = None \<and> p_id p = f_id f)"
  using assms
  by (auto simp: spawn_flight_def Let_def split_beta createPlane_props split: if_splits)

lemma process_spawns_props:
  "process_spawns w b now sched st = (sched', st') \<Longrightarrow>
   map f_id sched' = map f_id sched \<and> uuids (sp_entropy st') = uuids (sp_entropy st)
   \<and> (\<forall>p \<in> set (sp_newPlanes st'). p \<in> set (sp_newPlanes st)
         \<or> (targetGateId p = None \<and> p_id p \<in> f_id ` set sched))"
proof (induction sched arbitrary: st sched' st')
  case Nil
  then show ?case by simp
next
  case (Cons s rest)
  show ?case
  proof (cases "due_flight now s")
    case False
    obtain r2 st2 where r: "process_spawns w b now rest st = (r2, st2)"
      by (cases "process_spawns w b now rest st")
    with Cons.prems False have "sched' = s # r2" "st' = st2" by simp_all
    with Cons.IH [OF r] show ?thesis by auto
  next
    case True
    obtain s1 st1 where s1: "spawn_flight w b now s st = (s1, st1)"
      by (cases "spawn_flight w b now s st")
    obtain r2 st2 where r: "process_spawns w b now rest st1 = (r2, st2)"
      by (cases "process_spawns w b now rest st1")
    with Cons.prems True s1 have eq: "sched' = s1 # r2" "st' = st2" by simp_all
    from spawn_flight_props [OF s1] Cons.IH [OF r] eq show ?thesis by auto
  qed
qed

lemma fold_claim_gate_keeps:
  "\<forall>p \<in> set ps. p_id p \<noteq> [] \<Longrightarrow> \<not> gate_unclaimed occ g \<Longrightarrow>
   \<not> gate_unclaimed (fold claim_gate ps occ) g"
proof (induction ps arbitrary: occ)
  case Nil
  then show ?case by simp
next
  case (Cons p ps)
  have "\<not> gate_unclaimed (claim_gate p occ) g"
    using Cons.prems by (auto simp: claim_gate_def claimed_update split: option.splits)
  then show ?case using Cons by simp
qed

lemma fold_claim_gate_claims:
  "\<forall>p \<in> set ps. p_id p \<noteq> [] \<and> gate_ok p \<Longrightarrow> g \<in> set (held ps) \<Longrightarrow> g \<noteq> [] \<Longrightarrow>
   \<not> gate_unclaimed (fold claim_gate ps occ) g"
proof (induction ps arbitrary: occ)
  case Nil
  then show ?case by (simp add: held_Nil)
next
  case (Cons p ps)
  show ?case
  proof (cases "targetGateId p = Some g")
    case True
    then have "\<not> gate_unclaimed (claim_gate p occ) g"
      using Cons.prems by (auto simp: claim_gate_def gate_ok_def claimed_new)
    then show ?thesis using Cons.prems(1) by (simp add: fold_claim_gate_keeps)
  next
    case False
    then have "g \<in> set (held ps)" using Cons.prems(2) by (cases "targetGateId p") (auto simp: held_Cons)
    then show ?thesis using Cons by simp
  qed
qed

lemma held_filter_distinct: "distinct (held ps) \<Longrightarrow> distinct (held (filter P ps))"
proof (induction ps)
  case Nil
  then show ?case by simp
next
  case (Cons p ps)
  then have "distinct (held ps)" by (cases "targetGateId p") (auto simp: held_Cons)
  moreover have "set (held (filter P ps)) \<subseteq> set (held ps)" by (auto simp: set_held)
  ultimately show ?case using Cons by (cases "targetGateId p") (auto simp: held_Cons)
qed

lemma held_no_gate: "\<forall>p \<in> set ps. targetGateId p = None \<Longrightarrow> held ps = []"
  by (induction ps) (simp_all add: held_Nil held_Cons)

lemma ids_nonempty_iff:
  "(\<forall>f \<in> set xs. f_id f \<noteq> []) \<longleftrightarrow> [] \<notin> set (map f_id xs)"
  by (induction xs) auto

lemma schedule_phase_ids:
  assumes "schedule_phase ref prev now g = (schedule1, g1)"
  shows "uuids g1 = uuids g"
    and "\<forall>f \<in> set schedule1. f \<in> set (schedule prev) \<or> f_id f \<in> range (uuids g)"
proof -
  obtain batch gb where gen: "generateSchedule ref now (demand (economy prev)) g = (batch, gb)"
    by (cases "generateSchedule ref now (demand (economy prev)) g")
  show "uuids g1 = uuids g"
    using assms generateSchedule_ids [OF gen]
    by (auto simp: schedule_phase_def gen split: if_splits)
  show "\<forall>f \<in> set schedule1. f \<in> set (schedule prev) \<or> f_id f \<in> range (uuids g)"
    using assms generateSchedule_ids [OF gen]
    by (auto simp: schedule_phase_def gen split: if_splits)
qed

lemma tick_unfold:
  assumes "schedule_phase ref prev (gameTime prev + 1) g = (schedule1, g1)"
    and "spawn_phase prev (gameTime prev + 1) schedule1 g1 = (schedule2, sp)"
    and "physics_pass (upgrades ref) (gameTime prev + 1) [] (planes prev @ sp_newPlanes sp)
           \<lparr>ps_occupancy = rebuild_occupancy (planes prev) (gateOccupancy prev),
            ps_economy = sp_economy sp, ps_schedule = schedule2,
            ps_logs = sp_logs sp, ps_entropy = sp_entropy sp\<rparr> = Inr (out, st')"
  shows "tick ref prev g =
     Inr (prev\<lparr>gameTime := gameTime prev + 1, schedule := ps_schedule st',
               planes := filter (\<lambda>p. p_status p \<noteq> DEPARTED) out,
               economy := (if js_rem (gameTime prev + 1) 1440 = 0
                           then organic_growth (upgrades prev) (ps_economy st')
                           else ps_economy st'),
               logs := ps_logs st', gateOccupancy := ps_occupancy st'\<rparr>, ps_entropy st')"
  by (simp add: tick_def Let_def assms)

lemma tick_engine_inv:
  assumes inv: "engine_inv prev" and fresh: "\<forall>n. uuids g n \<noteq> []"
  shows "\<exists>s' g'. tick ref prev g = Inr (s', g') \<and> engine_inv s' \<and> uuids g' = uuids g"
proof -
  let ?now = "gameTime prev + 1"
  obtain schedule1 g1 where phase: "schedule_phase ref prev ?now g = (schedule1, g1)"
    by (cases "schedule_phase ref prev ?now g")
  obtain schedule2 sp where spawn: "spawn_phase prev ?now schedule1 g1 = (schedule2, sp)"
    by (cases "spawn_phase prev ?now schedule1 g1")
  define st0 where "st0 = \<lparr>ps_occupancy = rebuild_occupancy (planes prev) (gateOccupancy prev),
      ps_economy = sp_economy sp, ps_schedule = schedule2,
      ps_logs = sp_logs sp, ps_entropy = sp_entropy sp\<rparr>"
  let ?all = "planes prev @ sp_newPlanes sp"
  have pl: "distinct (held (planes prev))" "\<forall>p \<in> set (planes prev). gate_ok p \<and> p_id p \<noteq> []"
    and sch: "\<forall>f \<in> set (schedule prev). f_id f \<noteq> []"
    using inv by (auto simp: engine_inv_def gates_exclusive_def list_all_iff)
  have g1_uuids: "uuids g1 = uuids g" using phase by (rule schedule_phase_ids)
  have sch1: "\<forall>f \<in> set schedule1. f_id f \<noteq> []"
    using schedule_phase_ids(2) [OF phase] sch fresh by auto
  from process_spawns_props [OF spawn [unfolded spawn_phase_def Let_def]]
  have sch2: "map f_id schedule2 = map f_id schedule1"
    and sp_uuids: "uuids (sp_entropy sp) = uuids g"
    and new: "\<forall>p \<in> set (sp_newPlanes sp). targetGateId p = None \<and> p_id p \<in> f_id ` set schedule1"
    by (simp_all add: g1_uuids)
  have new_ok: "\<forall>p \<in> set (sp_newPlanes sp). gate_ok p \<and> p_id p \<noteq> []"
    using new sch1 by (auto simp: gate_ok_def)
  have held_all: "held ?all = held (planes prev)"
    using new by (simp add: held_append held_no_gate)
  have a1: "\<forall>p \<in> set ?all. gate_ok p \<and> p_id p \<noteq> []" using pl(2) new_ok by auto
  have a2: "distinct ([] @ held ?all)" using pl(1) by (simp add: held_all)
  have a3: "\<forall>g \<in> set [] \<union> set (held ?all). g \<noteq> [] \<longrightarrow> \<not> gate_unclaimed (ps_occupancy st0) g"
    using pl(2) by (auto simp: held_all st0_def rebuild_occupancy_def fold_claim_gate_claims)
  from physics_pass_gates [OF a1 a2 a3, of "upgrades ref" ?now "[]"]
  obtain out st' where pass: "physics_pass (upgrades ref) ?now [] ?all st0 = Inr (out, st')"
    and out: "distinct (held out)" "\<forall>p \<in> set out. gate_ok p \<and> p_id p \<noteq> []"
    by auto
  from physics_pass_frame [OF pass]
  have fr: "map f_id (ps_schedule st') = map f_id schedule1" "uuids (ps_entropy st') = uuids g"
    by (simp_all add: st0_def sch2 sp_uuids)
  define s' where "s' = prev\<lparr>gameTime := ?now, schedule := ps_schedule st',
                      planes := filter (\<lambda>p. p_status p \<noteq> DEPARTED) out,
                      economy := (if js_rem ?now 1440 = 0
                                  then organic_growth (upgrades prev) (ps_economy st')
                                  else ps_economy st'),
                      logs := ps_logs st', gateOccupancy := ps_occupancy st'\<rparr>"
  have "tick ref prev g = Inr (s', ps_entropy st')"
    unfolding s'_def using phase spawn pass [unfolded st0_def] by (rule tick_unfold)
  moreover have "engine_inv s'"
  proof -
    have "[] \<notin> set (map f_id schedule1)" using sch1 by (simp add: ids_nonempty_iff)
    then have "[] \<notin> set (map f_id (ps_schedule st'))" by (simp add: fr(1))
    then have "\<forall>f \<in> set (ps_schedule st'). f_id f \<noteq> []" by (simp add: ids_nonempty_iff)
    then show ?thesis using out
      by (auto simp: engine_inv_def gates_exclusive_def s'_def list_all_iff held_filter_distinct)
  qed
  ultimately show ?thesis using fr(2) by blast
qed

lemma physics_pass_total: "\<exists>out st'. physics_pass ups now seen rest st = Inr (out, st')"
proof (induction rest arbitrary: seen st)
  case Nil
  show ?case by simp
next
  case (Cons p rest)
  obtain p' where p': "updatePlanePhysics ups p (seen @ p # rest) (ps_occupancy st) = Inr p'"
    using updatePlanePhysics_total by blast
  from Cons [of "seen @ [p\<lparr>position := position p'\<rparr>]" "plane_events now p p' st"]
  obtain out st' where
    "physics_pass ups now (seen @ [p\<lparr>position := position p'\<rparr>]) rest (plane_events now p p' st)
       = Inr (out, st')"
    by blast
  with p' show ?case by simp
qed

lemma reaches_apron_logic:
  assumes "reaches_apron p"
  shows "waiting_logic ups occ (hold_short_logic all (approach_logic all p, initial_speed p))
         = (p, initial_speed p)"
  using assms
  by (simp add: reaches_apron_def approach_logic_def hold_short_logic_def waiting_logic_def)

lemma reaches_apron_update:
  assumes "reaches_apron p"
  shows "updatePlanePhysics ups p all occ
         = state_transitions ups occ (movement p (speed_logic (p, initial_speed p)))"
  by (simp add: updatePlanePhysics_def Let_def reaches_apron_logic [OF assms])

lemma reaches_apron_acquires:
  assumes ra: "reaches_apron p" and free: "getFreeGate occ ups = Some gate"
  shows "\<exists>p'. updatePlanePhysics ups p all occ = Inr p' \<and> targetGateId p' = Some gate
           \<and> p_status p' = TAXI_IN \<and> p_id p' = p_id p"
proof -
  let ?m = "movement p (speed_logic (p, initial_speed p))"
  from free obtain n where n: "find (\<lambda>n. Some (n_id n) = Some gate) MAP_NODES = Some n"
    using gate_node_found getFreeGate_Some by blast
  have t: "truthy (getFreeGate occ ups)" unfolding truthy_getFreeGate using free by simp
  have m: "waypoints ?m = []" "p_status ?m = TAXI_IN" "targetGateId ?m = None" "p_id ?m = p_id p"
    using ra by (simp_all add: reaches_apron_def movement_frame)
  have "state_transitions ups occ ?m
        = Inr (?m\<lparr>targetGateId := Some gate, waypoints := gate_waypoints n\<rparr>)"
    using m t free n by (simp add: state_transitions_def Let_def truthy_def)
  then show ?thesis using m by (simp add: reaches_apron_update [OF ra])
qed

lemma reaches_apron_waits:
  assumes ra: "reaches_apron p" and full: "getFreeGate occ ups = None"
  shows "\<exists>p'. updatePlanePhysics ups p all occ = Inr p' \<and> targetGateId p' = None
           \<and> p_status p' = WAITING_FOR_GATE \<and> p_id p' = p_id p"
proof -
  let ?m = "movement p (speed_logic (p, initial_speed p))"
  have m: "waypoints ?m = []" "p_status ?m = TAXI_IN" "targetGateId ?m = None" "p_id ?m = p_id p"
    using ra by (simp_all add: reaches_apron_def movement_frame)
  have "state_transitions ups occ ?m
        = Inr (?m\<lparr>p_status := WAITING_FOR_GATE, history := history ?m @ [''Waiting for Gate'']\<rparr>)"
    using m full by (simp add: state_transitions_def Let_def truthy_def)
  then show ?thesis using m by (simp add: reaches_apron_update [OF ra])
qed

text \<open>
  A plane that finds no free gate, and a plane that does not ask for one, leave the
  occupancy map as it is.
\<close>

lemma state_transitions_no_free_gate:
  assumes "getFreeGate occ ups = None" "state_transitions ups occ u = Inr u'"
  shows "(targetGateId u' = targetGateId u \<or> targetGateId u' = None)
     \<and> (p_status u = WAITING_FOR_GATE \<longrightarrow> p_status u' = WAITING_FOR_GATE) \<and> p_id u' = p_id u"
  using assms
  by (cases "p_status u")
     (auto simp: state_transitions_def Let_def truthy_def split: if_splits)

lemma update_no_free_gate:
  assumes full: "getFreeGate occ ups = None"
    and res: "updatePlanePhysics ups p allPlanes occ = Inr p'"
  shows "(targetGateId p' = targetGateId p \<or> targetGateId p' = None)
     \<and> (p_status p = WAITING_FOR_GATE \<longrightarrow> p_status p' = WAITING_FOR_GATE) \<and> p_id p' = p_id p"
proof -
  let ?h = "hold_short_logic allPlanes (approach_logic allPlanes p, initial_speed p)"
  let ?w = "waiting_logic ups occ ?h"
  have h: "targetGateId (fst ?h) = targetGateId p" "p_id (fst ?h) = p_id p"
    "p_status p = WAITING_FOR_GATE \<longrightarrow> p_status (fst ?h) = WAITING_FOR_GATE"
    by (auto simp: hold_short_logic_frame approach_logic_frame hold_short_logic_def
          approach_logic_def Let_def)
  have w: "fst ?w = fst ?h"
    using full by (cases ?h) (simp add: waiting_logic_def truthy_def)
  let ?m = "movement (fst ?w) (speed_logic ?w)"
  have "state_transitions ups occ ?m = Inr p'"
    using res by (simp add: updatePlanePhysics_def Let_def)
  from state_transitions_no_free_gate [OF full this] h
  show ?thesis by (simp add: movement_frame w)
qed

lemma gate_claim_event_same:
  "targetGateId p' = targetGateId p \<or> targetGateId p' = None \<Longrightarrow> gate_claim_event p p' st = st"
  by (auto simp: gate_claim_event_def split: option.splits)

lemma state_transitions_non_requester:
  assumes "\<not> requests_gate u" "state_transitions ups occ u = Inr u'"
  shows "targetGateId u' = targetGateId u \<or> targetGateId u' = None"
  using assms
  by (cases "p_status u")
     (auto simp: state_transitions_def requests_gate_def Let_def split: if_splits)

lemma update_non_requester:
  assumes nr: "\<not> requests_gate p"
    and res: "updatePlanePhysics ups p allPlanes occ = Inr p'"
  shows "targetGateId p' = targetGateId p \<or> targetGateId p' = None"
proof -
  let ?h = "hold_short_logic allPlanes (approach_logic allPlanes p, initial_speed p)"
  let ?w = "waiting_logic ups occ ?h"
  have h: "targetGateId (fst ?h) = targetGateId p" "\<not> requests_gate (fst ?h)"
    using nr
    by (auto simp: requests_gate_def hold_short_logic_def approach_logic_def Let_def)
  have w: "?w = ?h"
    using h(2) by (cases ?h) (simp add: waiting_logic_def requests_gate_def)
  let ?m = "movement (fst ?h) (speed_logic ?h)"
  have m: "\<not> requests_gate ?m" using h(2) by (simp add: requests_gate_def movement_frame)
  have "state_transitions ups occ ?m = Inr p'"
    using res by (simp add: updatePlanePhysics_def Let_def w)
  from state_transitions_non_requester [OF m this] h(1)
  show ?thesis by (simp add: movement_frame)
qed

text \<open>
  Two planes ask for a gate in the same pass and one gate is free: the first in the order
  of the list takes it, and no plane behind it finds a gate in this pass.
\<close>

lemma physics_pass_late_arrival:
  assumes "getFreeGate (ps_occupancy st) ups = None" and "reaches_apron q"
  shows "\<exists>out_mid q' out_post st'.
           physics_pass ups now seen (mid @ q # post) st = Inr (out_mid @ q' # out_post, st')
           \<and> p_id q' = p_id q \<and> targetGateId q' = None \<and> p_status q' = WAITING_FOR_GATE"
  using assms
proof (induction mid arbitrary: seen st)
  case Nil
  from reaches_apron_waits [OF Nil(2,1), of "seen @ q # post"] obtain q' where
    q': "updatePlanePhysics ups q (seen @ q # post) (ps_occupancy st) = Inr q'"
      "targetGateId q' = None" "p_status q' = WAITING_FOR_GATE" "p_id q' = p_id q"
    by blast
  obtain out st' where
    "physics_pass ups now (seen @ [q\<lparr>position := position q'\<rparr>]) post (plane_events now q q' st)
       = Inr (out, st')"
    using physics_pass_total by blast
  with q'(1) have "physics_pass ups now seen ([] @ q # post) st = Inr ([] @ q' # out, st')"
    by simp
  with q' show ?case by blast
next
  case (Cons m mid)
  obtain m' where m': "updatePlanePhysics ups m (seen @ m # mid @ q # post) (ps_occupancy st) = Inr m'"
    using updatePlanePhysics_total by blast
  from update_no_free_gate [OF Cons.prems(1) m']
  have occ: "ps_occupancy (plane_events now m m' st) = ps_occupancy st"
    by (simp add: plane_events_occupancy gate_claim_event_same)
  have full: "getFreeGate (ps_occupancy (plane_events now m m' st)) ups = None"
    using Cons.prems(1) by (simp add: occ)
  from Cons.IH [OF full Cons.prems(2), of "seen @ [m\<lparr>position := position m'\<rparr>]"]
  obtain out_mid q' out_post st' where
    r: "physics_pass ups now (seen @ [m\<lparr>position := position m'\<rparr>]) (mid @ q # post)
          (plane_events now m m' st) = Inr (out_mid @ q' # out_post, st')"
      "p_id q' = p_id q" "targetGateId q' = None" "p_status q' = WAITING_FOR_GATE"
    by blast
  have "physics_pass ups now seen ((m # mid) @ q # post) st
        = Inr ((m' # out_mid) @ q' # out_post, st')"
    using m' r(1) by simp
  with r show ?case by blast
qed

lemma physics_pass_contention:
  assumes pre: "list_all (\<lambda>u. \<not> requests_gate u) pre"
    and p: "reaches_apron p" and q: "reaches_apron q" and idp: "p_id p \<noteq> []"
    and one: "getFreeGate (ps_occupancy st) ups = Some gate"
    and none: "getFreeGate ((ps_occupancy st)(gate \<mapsto> Some (p_id p))) ups = None"
  shows "\<exists>out_pre p' out_mid q' out_post st'.
           physics_pass ups now seen (pre @ p # mid @ q # post) st
             = Inr (out_pre @ p' # out_mid @ q' # out_post, st')
           \<and> p_id p' = p_id p \<and> targetGateId p' = Some gate \<and> p_status p' = TAXI_IN
           \<and> p_id q' = p_id q \<and> targetGateId q' = None \<and> p_status q' = WAITING_FOR_GATE"
  using pre one none
proof (induction pre arbitrary: seen st)
  case Nil
  obtain p' where p': "updatePlanePhysics ups p (seen @ p # mid @ q # post) (ps_occupancy st) = Inr p'"
    "targetGateId p' = Some gate" "p_status p' = TAXI_IN" "p_id p' = p_id p"
    using reaches_apron_acquires [OF p Nil(2)] by blast
  let ?st1 = "plane_events now p p' st"
  have gne: "gate \<noteq> []" using Nil(2) getFreeGate_Some gate_list_nonempty_names by blast
  have "targetGateId p = None" using p by (simp add: reaches_apron_def)
  then have occ1: "ps_occupancy ?st1 = (ps_occupancy st)(gate \<mapsto> Some (p_id p))"
    using p' gne by (simp add: plane_events_occupancy gate_claim_event_def)
  from physics_pass_late_arrival [OF Nil(3) [folded occ1] q,
      of now "seen @ [p\<lparr>position := position p'\<rparr>]" mid post]
  obtain out_mid q' out_post st' where
    r: "physics_pass ups now (seen @ [p\<lparr>position := position p'\<rparr>]) (mid @ q # post) ?st1
          = Inr (out_mid @ q' # out_post, st')"
      "p_id q' = p_id q" "targetGateId q' = None" "p_status q' = WAITING_FOR_GATE"
    by blast
  have "physics_pass ups now seen ([] @ p # mid @ q # post) st
        = Inr ([] @ p' # out_mid @ q' # out_post, st')"
    using p'(1) r(1) by simp
  with p' r show ?case by blast
next
  case (Cons u pre)
  obtain u' where
    u': "updatePlanePhysics ups u (seen @ u # pre @ p # mid @ q # post) (ps_occupancy st) = Inr u'"
    using updatePlanePhysics_total by blast
  have "\<not> requests_gate u" using Cons.prems(1) by simp
  from update_non_requester [OF this u']
  have occ: "ps_occupancy (plane_events now u u' st) = ps_occupancy st"
    by (simp add: plane_events_occupancy gate_claim_event_same)
  have pre: "list_all (\<lambda>u. \<not> requests_gate u) pre" using Cons.prems(1) by simp
  have one': "getFreeGate (ps_occupancy (plane_events now u u' st)) ups = Some gate"
    using Cons.prems(2) by (simp add: occ)
  have none': "getFreeGate ((ps_occupancy (plane_events now u u' st))(gate \<mapsto> Some (p_id p))) ups
      = None"
    unfolding occ by (rule Cons.prems(3))
  from Cons.IH [OF pre one' none', of "seen @ [u\<lparr>position := position u'\<rparr>]"]
  obtain out_pre p' out_mid q' out_post st' where
    r: "physics_pass ups now (seen @ [u\<lparr>position := position u'\<rparr>]) (pre @ p # mid @ q # post)
          (plane_events now u u' st) = Inr (out_pre @ p' # out_mid @ q' # out_post, st')"
      "p_id p' = p_id p" "targetGateId p' = Some gate" "p_status p' = TAXI_IN"
      "p_id q' = p_id q" "targetGateId q' = None" "p_status q' = WAITING_FOR_GATE"
    by blast
  have "physics_pass ups now seen ((u # pre) @ p # mid @ q # post) st
        = Inr ((u' # out_pre) @ p' # out_mid @ q' # out_post, st')"
    using u' r(1) by simp
  with r show ?case by blast
qed

lemma tick_gate_contention:
  assumes split: "planes prev = pre @ p # mid @ q # post"
    and pre: "list_all (\<lambda>u. \<not> requests_gate u) pre"
    and p: "reaches_apron p" and q: "reaches_apron q" and idp: "p_id p \<noteq> []"
    and one: "getFreeGate (rebuild_occupancy (planes prev) (gateOccupancy prev)) (upgrades ref)
              = Some gate"
    and none: "getFreeGate ((rebuild_occupancy (planes prev) (gateOccupancy prev))
                 (gate \<mapsto> Some (p_id p))) (upgrades ref) = None"
  shows "\<exists>s' g' p' q'. tick ref prev g = Inr (s', g')
     \<and> p' \<in> set (planes s') \<and> q' \<in> set (planes s')
     \<and> p_id p' = p_id p \<and> targetGateId p' = Some gate \<and> p_status p' = TAXI_IN
     \<and> p_id q' = p_id q \<and> targetGateId q' = None \<and> p_status q' = WAITING_FOR_GATE"
proof -
  let ?now = "gameTime prev + 1"
  obtain schedule1 g1 where s1: "schedule_phase ref prev ?now g = (schedule1, g1)"
    by (cases "schedule_phase ref prev ?now g")
  obtain schedule2 sp where sp: "spawn_phase prev ?now schedule1 g1 = (schedule2, sp)"
    by (cases "spawn_phase prev ?now schedule1 g1")
  let ?st = "\<lparr>ps_occupancy = rebuild_occupancy (planes prev) (gateOccupancy prev),
        ps_economy = sp_economy sp, ps_schedule = schedule2,
        ps_logs = sp_logs sp, ps_entropy = sp_entropy sp\<rparr>"
  have one': "getFreeGate (ps_occupancy ?st) (upgrades ref) = Some gate" using one by simp
  have none': "getFreeGate ((ps_occupancy ?st)(gate \<mapsto> Some (p_id p))) (upgrades ref) = None"
    using none by simp
  from physics_pass_contention [OF pre p q idp one' none', of ?now "[]" mid "post @ sp_newPlanes sp"]
  obtain out_pre p' out_mid q' out_post st' where
    r: "physics_pass (upgrades ref) ?now [] (pre @ p # mid @ q # post @ sp_newPlanes sp) ?st
          = Inr (out_pre @ p' # out_mid @ q' # out_post, st')"
      "p_id p' = p_id p" "targetGateId p' = Some gate" "p_status p' = TAXI_IN"
      "p_id q' = p_id q" "targetGateId q' = None" "p_status q' = WAITING_FOR_GATE"
    by blast
  have pass: "physics_pass (upgrades ref) ?now [] (planes prev @ sp_newPlanes sp) ?st
          = Inr (out_pre @ p' # out_mid @ q' # out_post, st')"
    using r(1) by (simp add: split)
  obtain s' g' where t: "tick ref prev g = Inr (s', g')"
    by (simp add: tick_unfold [OF s1 sp pass])
  have "planes (fst (projr (tick ref prev g)))
        = filter (\<lambda>u. p_status u \<noteq> DEPARTED) (out_pre @ p' # out_mid @ q' # out_post)"
    by (simp add: tick_unfold [OF s1 sp pass])
  then have "planes s' = filter (\<lambda>u. p_status u \<noteq> DEPARTED) (out_pre @ p' # out_mid @ q' # out_post)"
    by (simp add: t)
  then have "p' \<in> set (planes s')" "q' \<in> set (planes s')"
    using r(4,7) by simp_all
  with t r(2-7) show ?thesis
    by (intro exI [of _ s'] exI [of _ g'] exI [of _ p'] exI [of _ q'] conjI)
qed

lemma run_ticks_engine_inv:
  assumes inv: "engine_inv s" and fresh: "\<forall>n. uuids g n \<noteq> []"
  shows "\<exists>s' g'. run_ticks n s g = Inr (s', g') \<and> engine_inv s' \<and> uuids g' = uuids g"
proof (induction n)
  case 0
  show ?case using inv by simp
next
  case (Suc n)
  then obtain s1 g1 where s1: "run_ticks n s g = Inr (s1, g1)" "engine_inv s1" "uuids g1 = uuids g"
    by blast
  from tick_engine_inv [OF s1(2), of g1 s1] fresh s1(3)
  obtain s' g' where "tick s1 s1 g1 = Inr (s', g')" "engine_inv s'" "uuids g' = uuids g1"
    by auto
  then show ?case using s1 by simp
qed

lemma initial_engine_inv: "engine_inv (initial_state ai)"
  by (simp add: engine_inv_def gates_exclusive_def initial_state_def List.map_filter_simps)

text \<open>The definitions that an evaluation of the tick on a concrete state unfolds.\<close>

lemmas engine_defs =
  tick_def schedule_phase_def spawn_phase_def contention_state_def contention_pass_def initial_state_def
  example_plane_def example_flight_def example_entropy_def
  INITIAL_UPGRADES_def INITIAL_ECONOMY_def js_rem_def due_flight_def rebuild_occupancy_def
  reset_occupancy_def claim_gate_def updatePlanePhysics_def approach_logic_def
  hold_short_logic_def waiting_logic_def speed_logic_def movement_def state_transitions_def
  initial_speed_def getFreeGate_def gate_list_def gate_unclaimed_def truthy_def hasTerminalExp_def
  MAP_NODES_def gate_waypoints_def plane_events_def gate_claim_event_def revenue_event_def
  go_around_event_def isRunwayOccupied_def incoming_traffic_def SPEED_FACTOR_def
  GATE_PARK_DURATION_def organic_growth_def uuidv4_def push_log_def Let_def


text \<open>
  Claim C1. First, a tick keeps the invariant of the engine's states: from a state in which
  no two planes reference the same gate (and only planes that the snapshot counts reference
  one, and no identifier is empty), the tick returns a state of which the same is true.
  Second, the initial state has the invariant, so after any number of ticks no two planes
  reference the same gate. Third, when two planes \<open>p\<close> and \<open>q\<close> of the list both ask for a
  gate in the same tick, \<open>p\<close> before \<open>q\<close> and no plane before \<open>p\<close>, and exactly one gate is
  free, the tick leaves \<open>p\<close> with that gate and \<open>TAXI_IN\<close>, and \<open>q\<close> without a gate and
  \<open>WAITING_FOR_GATE\<close>.
\<close>

theorem gate_exclusivity:
  "(engine_inv prev \<and> (\<forall>n. uuids g n \<noteq> [])
      \<longrightarrow> (\<exists>s' g'. tick ref prev g = Inr (s', g') \<and> engine_inv s' \<and> uuids g' = uuids g))
   \<and> ((\<forall>n. uuids g n \<noteq> [])
      \<longrightarrow> (\<exists>s' g'. run_ticks k (initial_state ai) g = Inr (s', g') \<and> gates_exclusive (planes s')))
   \<and> (planes prev3 = pre @ p # mid @ q # post \<and> list_all (\<lambda>u. \<not> requests_gate u) pre
        \<and> reaches_apron p \<and> reaches_apron q \<and> p_id p \<noteq> []
        \<and> getFreeGate (rebuild_occupancy (planes prev3) (gateOccupancy prev3)) (upgrades ref3)
            = Some gate
        \<and> getFreeGate ((rebuild_occupancy (planes prev3) (gateOccupancy prev3))
              (gate \<mapsto> Some (p_id p))) (upgrades ref3) = None
      \<longrightarrow> (\<exists>s' g' p' q'. tick ref3 prev3 g3 = Inr (s', g')
            \<and> p' \<in> set (planes s') \<and> q' \<in> set (planes s')
            \<and> p_id p' = p_id p \<and> targetGateId p' = Some gate \<and> p_status p' = TAXI_IN
            \<and> p_id q' = p_id q \<and> targetGateId q' = None \<and> p_status q' = WAITING_FOR_GATE))"
proof (intro conjI impI)
  assume "engine_inv prev \<and> (\<forall>n. uuids g n \<noteq> [])"
  then show "\<exists>s' g'. tick ref prev g = Inr (s', g') \<and> engine_inv s' \<and> uuids g' = uuids g"
    using tick_engine_inv by blast
next
  assume "\<forall>n. uuids g n \<noteq> []"
  from run_ticks_engine_inv [OF initial_engine_inv this, of k ai]
  show "\<exists>s' g'. run_ticks k (initial_state ai) g = Inr (s', g') \<and> gates_exclusive (planes s')"
    by (auto simp: engine_inv_def)
next
  assume a: "planes prev3 = pre @ p # mid @ q # post \<and> list_all (\<lambda>u. \<not> requests_gate u) pre
        \<and> reaches_apron p \<and> reaches_apron q \<and> p_id p \<noteq> []
        \<and> getFreeGate (rebuild_occupancy (planes prev3) (gateOccupancy prev3)) (upgrades ref3)
            = Some gate
        \<and> getFreeGate ((rebuild_occupancy (planes prev3) (gateOccupancy prev3))
              (gate \<mapsto> Some (p_id p))) (upgrades ref3) = None"
  show "\<exists>s' g' p' q'. tick ref3 prev3 g3 = Inr (s', g')
            \<and> p' \<in> set (planes s') \<and> q' \<in> set (planes s')
            \<and> p_id p' = p_id p \<and> targetGateId p' = Some gate \<and> p_status p' = TAXI_IN
            \<and> p_id q' = p_id q \<and> targetGateId q' = None \<and> p_status q' = WAITING_FOR_GATE"
    using a by (intro tick_gate_contention [of prev3 pre p mid q post ref3 gate g3]) blast+
qed

text \<open>
  The tick of \<open>contention_state\<close>: the planes \<open>c\<close> and \<open>d\<close> both ask for a gate, only gate 3
  is free; \<open>c\<close>, first in the list, takes it.
\<close>

theorem gate_exclusivity_witness:
  "engine_inv contention_state
   \<and> (\<forall>n. uuids example_entropy n \<noteq> [])
   \<and> (\<exists>s' g'. tick contention_state contention_state example_entropy = Inr (s', g')
          \<and> engine_inv s'
          \<and> map (\<lambda>p. (p_id p, p_status p, targetGateId p)) (planes s')
              = [(''a'', PARKED, Some ''gate_1''), (''b'', PARKED, Some ''gate_2''),
                 (''c'', TAXI_IN, Some ''gate_3''), (''d'', WAITING_FOR_GATE, None)])
   \<and> (\<exists>s' g'. run_ticks 2 (initial_state False) example_entropy = Inr (s', g')
          \<and> gates_exclusive (planes s'))
   \<and> planes contention_state
       = take 2 (planes contention_state) @ example_plane ''c'' TAXI_IN 1300 850 None 0
           # [] @ example_plane ''d'' TAXI_IN 1300 850 None 0 # []
   \<and> list_all (\<lambda>u. \<not> requests_gate u) (take 2 (planes contention_state))
   \<and> reaches_apron (example_plane ''c'' TAXI_IN 1300 850 None 0)
   \<and> reaches_apron (example_plane ''d'' TAXI_IN 1300 850 None 0)
   \<and> getFreeGate (rebuild_occupancy (planes contention_state) (gateOccupancy contention_state))
        (upgrades contention_state) = Some ''gate_3''
   \<and> getFreeGate ((rebuild_occupancy (planes contention_state) (gateOccupancy contention_state))
          (''gate_3'' \<mapsto> Some ''c'')) (upgrades contention_state) = None
   \<and> (\<exists>s' g' p' q'. tick contention_state contention_state example_entropy = Inr (s', g')
         \<and> p' \<in> set (planes s') \<and> q' \<in> set (planes s')
         \<and> p_id p' = ''c'' \<and> targetGateId p' = Some ''gate_3'' \<and> p_status p' = TAXI_IN
         \<and> p_id q' = ''d'' \<and> targetGateId q' = None \<and> p_status q' = WAITING_FOR_GATE)"
proof -
  let ?c = "example_plane ''c'' TAXI_IN 1300 850 None 0"
  let ?d = "example_plane ''d'' TAXI_IN 1300 850 None 0"
  let ?occ = "rebuild_occupancy (planes contention_state) (gateOccupancy contention_state)"
  note inst = gate_exclusivity [of contention_state example_entropy contention_state 2 False
      contention_state "take 2 (planes contention_state)"
      "example_plane ''c'' TAXI_IN 1300 850 None 0" "[]"
      "example_plane ''d'' TAXI_IN 1300 850 None 0" "[]" contention_state "''gate_3''"
      example_entropy]
  have inv: "engine_inv contention_state"
    by (simp add: engine_inv_def gates_exclusive_def gate_ok_def contention_state_def
          initial_state_def example_plane_def example_flight_def List.map_filter_simps)
  have fresh: "\<forall>n. uuids example_entropy n \<noteq> []" by (simp add: example_entropy_def)
  have split: "planes contention_state = take 2 (planes contention_state) @ ?c # [] @ ?d # []"
    by (simp add: contention_state_def)
  have pre: "list_all (\<lambda>u. \<not> requests_gate u) (take 2 (planes contention_state))"
    by (simp add: contention_state_def example_plane_def requests_gate_def truthy_def)
  have c: "reaches_apron ?c" and d: "reaches_apron ?d"
    by (simp_all add: reaches_apron_def example_plane_def movement_def)
  have idc: "p_id ?c = ''c''" and idd: "p_id ?d = ''d''" by (simp_all add: example_plane_def)
  have one: "getFreeGate ?occ (upgrades contention_state) = Some ''gate_3''"
    by (simp add: engine_defs)
  have none: "getFreeGate (?occ(''gate_3'' \<mapsto> Some ''c'')) (upgrades contention_state) = None"
    by (simp add: engine_defs)
  have outcome: "map (\<lambda>p. (p_id p, p_status p, targetGateId p))
       (planes (fst (projr (tick contention_state contention_state example_entropy))))
     = [(''a'', PARKED, Some ''gate_1''), (''b'', PARKED, Some ''gate_2''),
        (''c'', TAXI_IN, Some ''gate_3''), (''d'', WAITING_FOR_GATE, None)]"
    by (simp add: engine_defs)
  from inst inv fresh obtain s' g' where
    t: "tick contention_state contention_state example_entropy = Inr (s', g')" "engine_inv s'"
    by blast
  from t(1) outcome have "map (\<lambda>p. (p_id p, p_status p, targetGateId p)) (planes s')
     = [(''a'', PARKED, Some ''gate_1''), (''b'', PARKED, Some ''gate_2''),
        (''c'', TAXI_IN, Some ''gate_3''), (''d'', WAITING_FOR_GATE, None)]"
    by simp
  with t have first: "\<exists>s' g'. tick contention_state contention_state example_entropy = Inr (s', g')
          \<and> engine_inv s'
          \<and> map (\<lambda>p. (p_id p, p_status p, targetGateId p)) (planes s')
              = [(''a'', PARKED, Some ''gate_1''), (''b'', PARKED, Some ''gate_2''),
                 (''c'', TAXI_IN, Some ''gate_3''), (''d'', WAITING_FOR_GATE, None)]"
    by (intro exI [of _ s'] exI [of _ g'] conjI)
  from inst fresh have second: "\<exists>s' g'. run_ticks 2 (initial_state False) example_entropy = Inr (s', g')
          \<and> gates_exclusive (planes s')"
    by blast
  have third: "\<exists>s' g' p' q'. tick contention_state contention_state example_entropy = Inr (s', g')
         \<and> p' \<in> set (planes s') \<and> q' \<in> set (planes s')
         \<and> p_id p' = ''c'' \<and> targetGateId p' = Some ''gate_3'' \<and> p_status p' = TAXI_IN
         \<and> p_id q' = ''d'' \<and> targetGateId q' = None \<and> p_status q' = WAITING_FOR_GATE"
    using inst split pre c d one none by (simp add: idc idd)
  show ?thesis by (intro conjI inv fresh first second split pre c d one none third)
qed

section \<open>Ticks in which no flight is due\<close>

text \<open>
  Every flight of a new batch is \<open>Scheduled\<close> at least 60 ticks ahead. A tick that tops up
  the schedule keeps, of the flights it had, those that are \<open>Scheduled\<close> for a later tick:
  after step 1 of such a tick no flight is due. Where no flight is due, steps 2 and 3
  change nothing.
\<close>

lemma Math_random_range: "0 \<le> fst (Math_random g) \<and> fst (Math_random g) < 1"
  using Rep_unit_draw [of "randoms g (rpos g)"] by (simp add: Math_random_def)

lemma accept_slot_flight:
  "\<exists>f. futureFlights (accept_slot e t st) = futureFlights st @ [f]
     \<and> scheduledTime f = t \<and> f_status f = Scheduled"
  by (simp add: accept_slot_def Let_def split: prod.splits)

lemma attempt_loop_future:
  "list_all (\<lambda>f. f_status f = Scheduled \<and> t + 60 \<le> scheduledTime f) (futureFlights st) \<Longrightarrow>
   list_all (\<lambda>f. f_status f = Scheduled \<and> t + 60 \<le> scheduledTime f)
     (futureFlights (attempt_loop t e G attempts st))"
proof (induction "15 - attempts" arbitrary: attempts st)
  case 0
  then have "\<not> attempts < 15" by simp
  then show ?case using "0.prems" by (subst attempt_loop.simps) simp
next
  case (Suc k)
  then have lt: "attempts < 15" and k: "k = 15 - (attempts + 1)" by simp_all
  obtain r g1 where rg: "Math_random (sl_entropy st) = (r, g1)"
    by (cases "Math_random (sl_entropy st)")
  have "0 \<le> r" using Math_random_range [of "sl_entropy st"] by (simp add: rg)
  then have r: "0 \<le> \<lfloor>r * 360\<rfloor>" by simp
  let ?t = "t + \<lfloor>r * 360\<rfloor> + 60"
  let ?rel = "filter (\<lambda>iv. iv_start iv < ?t + GATE_OCCUPANCY_WINDOW \<and> iv_end iv > ?t)
               (committedIntervals st @ [\<lparr>iv_start = ?t, iv_end = ?t + GATE_OCCUPANCY_WINDOW\<rparr>])"
  have inv1: "list_all (\<lambda>f. f_status f = Scheduled \<and> t + 60 \<le> scheduledTime f)
      (futureFlights (st\<lparr>sl_entropy := g1\<rparr>))"
    using Suc.prems by simp
  have unfold: "attempt_loop t e G attempts st =
      (if maxConcurrency ?rel \<le> G then accept_slot e ?t (st\<lparr>sl_entropy := g1\<rparr>)
       else attempt_loop t e G (attempts + 1) (st\<lparr>sl_entropy := g1\<rparr>))"
    using lt rg by (subst attempt_loop.simps) (simp only: Let_def if_True split_conv)
  show ?case
  proof (cases "maxConcurrency ?rel \<le> G")
    case True
    obtain f where f: "futureFlights (accept_slot e ?t (st\<lparr>sl_entropy := g1\<rparr>))
        = futureFlights (st\<lparr>sl_entropy := g1\<rparr>) @ [f]" "scheduledTime f = ?t" "f_status f = Scheduled"
      using accept_slot_flight by blast
    have "list_all (\<lambda>f. f_status f = Scheduled \<and> t + 60 \<le> scheduledTime f)
        (futureFlights (accept_slot e ?t (st\<lparr>sl_entropy := g1\<rparr>)))"
      using inv1 f(2,3) r unfolding f(1) by simp
    then show ?thesis using True by (simp only: unfold if_True)
  next
    case False
    have "list_all (\<lambda>f. f_status f = Scheduled \<and> t + 60 \<le> scheduledTime f)
        (futureFlights (attempt_loop t e G (attempts + 1) (st\<lparr>sl_entropy := g1\<rparr>)))"
      using k inv1 by (rule Suc.hyps(1))
    then show ?thesis using False by (simp only: unfold if_False)
  qed
qed

lemma flights_loop_future:
  "list_all (\<lambda>f. f_status f = Scheduled \<and> t + 60 \<le> scheduledTime f) (futureFlights st) \<Longrightarrow>
   list_all (\<lambda>f. f_status f = Scheduled \<and> t + 60 \<le> scheduledTime f)
     (futureFlights (flights_loop t e G n st))"
  by (induction n arbitrary: st) (simp_all add: attempt_loop_future)

lemma generateSchedule_future:
  "list_all (\<lambda>f. f_status f = Scheduled \<and> t + 60 \<le> scheduledTime f)
     (fst (generateSchedule ref t d g))"
proof -
  have "list_all (\<lambda>f. f_status f = Scheduled \<and> t + 60 \<le> scheduledTime f)
     (futureFlights (flights_loop t e G n
        \<lparr>committedIntervals = c, futureFlights = [], sl_entropy = g\<rparr>))" for e G n c
    by (rule flights_loop_future) simp
  then show ?thesis
    by (simp add: generateSchedule_def Let_def list_all_iff)
qed

lemma schedule_phase_regenerates:
  assumes "js_rem now 360 = 0 \<or> length (schedule prev) < 3"
  shows "list_all (pending_flight now) (fst (schedule_phase ref prev now g))"
proof -
  obtain newFlights g' where gen: "generateSchedule ref now (demand (economy prev)) g = (newFlights, g')"
    by (cases "generateSchedule ref now (demand (economy prev)) g")
  have "list_all (\<lambda>f. f_status f = Scheduled \<and> now + 60 \<le> scheduledTime f) newFlights"
    using generateSchedule_future [of now ref "demand (economy prev)" g] by (simp add: gen)
  then have "list_all (pending_flight now) newFlights"
    by (auto simp: list_all_iff pending_flight_def)
  then show ?thesis
    using assms by (auto simp: schedule_phase_def gen list_all_iff)
qed

lemma process_spawns_none_due:
  "list_all (\<lambda>s. \<not> due_flight now s) sched \<Longrightarrow> process_spawns w b now sched st = (sched, st)"
  by (induction sched) simp_all

lemma spawn_phase_none_due:
  assumes "list_all (\<lambda>s. \<not> due_flight now s) sched"
  shows "spawn_phase prev now sched g
     = (sched, \<lparr>sp_newPlanes = [], sp_logs = logs prev, sp_economy = economy prev, sp_entropy = g\<rparr>)"
  by (simp add: spawn_phase_def Let_def process_spawns_none_due [OF assms])

lemma pending_not_due: "pending_flight now s \<Longrightarrow> \<not> due_flight now s"
  by (simp add: pending_flight_def due_flight_def)

lemma schedule_phase_none_due:
  assumes "list_all (\<lambda>s. \<not> due_flight now s) (schedule prev)"
  shows "list_all (\<lambda>s. \<not> due_flight now s) (fst (schedule_phase ref prev now g))"
proof (cases "js_rem now 360 = 0 \<or> length (schedule prev) < 3")
  case True
  from schedule_phase_regenerates [OF this, of ref g] show ?thesis
    by (auto simp: list_all_iff pending_not_due)
next
  case False
  then show ?thesis using assms by (simp add: schedule_phase_def)
qed

section \<open>Holding short of the runway\<close>

lemma moveTowards_zero: "fst (moveTowards u tx ty 0) = False"
proof -
  have "\<not> sqrt ((tx - pos_x (position u)) * (tx - pos_x (position u))
             + (ty - pos_y (position u)) * (ty - pos_y (position u))) < 0"
    by (simp add: not_less)
  then show ?thesis by (simp add: moveTowards_def Let_def)
qed

lemma movement_zero:
  "waypoints (movement u 0) = waypoints u"
  by (cases "waypoints u")
     (simp_all add: movement_def split_beta moveTowards_zero moveTowards_frame)

lemma isRunwayOccupied_iff:
  "isRunwayOccupied allPlanes (Some pid) \<longleftrightarrow>
     (\<exists>q \<in> set allPlanes. p_id q \<noteq> pid
        \<and> (p_status q = TAKEOFF \<or> p_status q = LANDING
            \<or> (740 < pos_y (position q) \<and> pos_y (position q) < 760
                \<and> 450 < pos_x (position q) \<and> pos_x (position q) < 1800)))"
  by (auto simp: isRunwayOccupied_def list_ex_iff)

lemma incoming_traffic_iff:
  "incoming_traffic allPlanes \<longleftrightarrow>
     (\<exists>q \<in> set allPlanes. p_status q = APPROACH \<and> pos_x (position q) > - 200)"
  by (simp add: incoming_traffic_def list_ex_iff)

lemma hold_short_update:
  assumes hs: "p_status plane = HOLD_SHORT"
  shows "\<exists>p'. updatePlanePhysics ups plane allPlanes occ = Inr p'
           \<and> p_status p' = (if isRunwayOccupied allPlanes (Some (p_id plane))
                                \<or> incoming_traffic allPlanes then HOLD_SHORT else TAKEOFF)
           \<and> timer p' = timer plane"
proof -
  let ?blocked = "isRunwayOccupied allPlanes (Some (p_id plane)) \<or> incoming_traffic allPlanes"
  let ?h = "hold_short_logic allPlanes (approach_logic allPlanes plane, initial_speed plane)"
  have a: "approach_logic allPlanes plane = plane" using hs by (simp add: approach_logic_def)
  have h: "snd ?h = 0" "p_status (fst ?h) = (if ?blocked then HOLD_SHORT else TAKEOFF)"
    "timer (fst ?h) = timer plane" "\<not> ?blocked \<longrightarrow> waypoints (fst ?h) \<noteq> []"
    using hs by (simp_all add: a hold_short_logic_def)
  have w: "waiting_logic ups occ ?h = ?h"
    using h(2) by (cases ?h) (auto simp: waiting_logic_def split: if_splits)
  have sp: "speed_logic ?h = 0"
    using h(1) by (cases ?h) (simp add: speed_logic_def Let_def)
  let ?m = "movement (fst ?h) 0"
  have m: "p_status ?m = (if ?blocked then HOLD_SHORT else TAKEOFF)" "timer ?m = timer plane"
    "\<not> ?blocked \<longrightarrow> waypoints ?m \<noteq> []"
    using h by (simp_all add: movement_frame movement_zero)
  have "state_transitions ups occ ?m = Inr ?m"
    using m by (cases ?blocked) (simp_all add: state_transitions_def)
  then show ?thesis
    using m by (simp add: updatePlanePhysics_def Let_def w sp)
qed

lemma taxi_out_update:
  assumes "p_status t = TAXI_OUT"
    and "waypoints (movement t (speed_logic (t, initial_speed t))) = []"
  shows "\<exists>p'. updatePlanePhysics ups t allPlanes occ = Inr p'
           \<and> p_status p' = HOLD_SHORT \<and> timer p' = 20"
proof -
  have "waiting_logic ups occ (hold_short_logic allPlanes (approach_logic allPlanes t, initial_speed t))
        = (t, initial_speed t)"
    using assms(1) by (simp add: approach_logic_def hold_short_logic_def waiting_logic_def)
  then show ?thesis
    using assms by (simp add: updatePlanePhysics_def Let_def state_transitions_def movement_frame)
qed

text \<open>
  What one call of \<^verbatim>\<open>updatePlanePhysics\<close> does to a plane that holds short: it keeps its
  timer, which is set to 20 when it arrives from \<open>TAXI_OUT\<close> and is not counted down; it
  stays \<open>HOLD_SHORT\<close> when the runway is occupied or traffic is incoming in the list
  \<open>allPlanes\<close> it is given, and becomes \<open>TAKEOFF\<close> otherwise.
\<close>

lemma hold_short_at_its_turn:
  "(p_status plane = HOLD_SHORT \<longrightarrow>
      (\<exists>p'. updatePlanePhysics ups plane allPlanes occ = Inr p'
         \<and> p_status p' = (if isRunwayOccupied allPlanes (Some (p_id plane))
                              \<or> incoming_traffic allPlanes then HOLD_SHORT else TAKEOFF)
         \<and> timer p' = timer plane))
   \<and> (p_status t = TAXI_OUT
        \<and> waypoints (movement t (speed_logic (t, initial_speed t))) = [] \<longrightarrow>
      (\<exists>p'. updatePlanePhysics ups t allPlanes occ = Inr p'
         \<and> p_status p' = HOLD_SHORT \<and> timer p' = 20))"
  using hold_short_update taxi_out_update
  by (intro conjI impI) blast+

text \<open>
  In a tick the list \<open>allPlanes\<close> holds the planes as they were when the tick began, but
  for the positions of the planes already visited. A plane released earlier in the same
  tick is therefore still \<open>HOLD_SHORT\<close> in the list that a later plane is checked against,
  and a released plane does not move in the tick of its release.
\<close>

lemma moveTowards_zero_position:
  "pos_x (position (snd (moveTowards u tx ty 0))) = pos_x (position u)"
  "pos_y (position (snd (moveTowards u tx ty 0))) = pos_y (position u)"
proof -
  have "\<not> sqrt ((tx - pos_x (position u)) * (tx - pos_x (position u))
             + (ty - pos_y (position u)) * (ty - pos_y (position u))) < 0"
    by (simp add: not_less)
  then show "pos_x (position (snd (moveTowards u tx ty 0))) = pos_x (position u)"
    "pos_y (position (snd (moveTowards u tx ty 0))) = pos_y (position u)"
    by (simp_all add: moveTowards_def Let_def)
qed

lemma movement_zero_position:
  "pos_x (position (movement u 0)) = pos_x (position u)"
  "pos_y (position (movement u 0)) = pos_y (position u)"
  by (cases "waypoints u";
      simp add: movement_def split_beta moveTowards_zero moveTowards_zero_position)+

lemma holders_keep_runway_clear:
  assumes "list_all holding_clear all"
  shows "\<not> isRunwayOccupied all pid" "\<not> incoming_traffic all"
  using assms
  by (auto simp: isRunwayOccupied_def incoming_traffic_def list_all_iff list_ex_iff holding_clear_def)

lemma hold_short_cleared:
  assumes hs: "p_status plane = HOLD_SHORT"
    and clear: "\<not> isRunwayOccupied allPlanes (Some (p_id plane))" "\<not> incoming_traffic allPlanes"
  shows "\<exists>p'. updatePlanePhysics ups plane allPlanes occ = Inr p'
           \<and> p_status p' = TAKEOFF \<and> p_id p' = p_id plane
           \<and> pos_x (position p') = pos_x (position plane)
           \<and> pos_y (position p') = pos_y (position plane)"
proof -
  let ?h = "hold_short_logic allPlanes (approach_logic allPlanes plane, initial_speed plane)"
  have a: "approach_logic allPlanes plane = plane" using hs by (simp add: approach_logic_def)
  have h: "snd ?h = 0" "p_status (fst ?h) = TAKEOFF" "p_id (fst ?h) = p_id plane"
    "position (fst ?h) = position plane" "waypoints (fst ?h) \<noteq> []"
    using hs clear by (simp_all add: a hold_short_logic_def)
  have w: "waiting_logic ups occ ?h = ?h"
    using h(2) by (cases ?h) (auto simp: waiting_logic_def split: if_splits)
  have sp: "speed_logic ?h = 0"
    using h(1) by (cases ?h) (simp add: speed_logic_def Let_def)
  let ?m = "movement (fst ?h) 0"
  have m: "p_status ?m = TAKEOFF" "p_id ?m = p_id plane" "waypoints ?m \<noteq> []"
    "pos_x (position ?m) = pos_x (position plane)" "pos_y (position ?m) = pos_y (position plane)"
    using h by (simp_all add: movement_frame movement_zero movement_zero_position)
  have "state_transitions ups occ ?m = Inr ?m"
    using m by (simp add: state_transitions_def)
  then show ?thesis
    using m by (simp add: updatePlanePhysics_def Let_def w sp)
qed

lemma physics_pass_holders:
  assumes "list_all holding_clear seen" and "list_all holding_clear rest"
  shows "\<exists>out st'. physics_pass ups now seen rest st = Inr (out, st')
           \<and> map p_id out = map p_id rest \<and> list_all (\<lambda>p. p_status p = TAKEOFF) out"
  using assms
proof (induction rest arbitrary: seen st)
  case Nil
  show ?case by simp
next
  case (Cons h rest)
  have all: "list_all holding_clear (seen @ h # rest)" using Cons.prems by simp
  have hs: "p_status h = HOLD_SHORT" using Cons.prems(2) by (simp add: holding_clear_def)
  from hold_short_cleared [OF hs holders_keep_runway_clear [OF all]]
  obtain h' where h': "updatePlanePhysics ups h (seen @ h # rest) (ps_occupancy st) = Inr h'"
    "p_status h' = TAKEOFF" "p_id h' = p_id h"
    "pos_x (position h') = pos_x (position h)" "pos_y (position h') = pos_y (position h)"
    by blast
  have "holding_clear (h\<lparr>position := position h'\<rparr>)"
    using Cons.prems(2) h'(4,5) by (simp add: holding_clear_def)
  then have seen: "list_all holding_clear (seen @ [h\<lparr>position := position h'\<rparr>])"
    using Cons.prems(1) by simp
  have rest: "list_all holding_clear rest" using Cons.prems(2) by simp
  from Cons.IH [OF seen rest, of "plane_events now h h' st"] obtain out st' where
    r: "physics_pass ups now (seen @ [h\<lparr>position := position h'\<rparr>]) rest (plane_events now h h' st)
          = Inr (out, st')"
      "map p_id out = map p_id rest" "list_all (\<lambda>p. p_status p = TAKEOFF) out"
    by blast
  have "physics_pass ups now seen (h # rest) st = Inr (h' # out, st')"
    using h'(1) r(1) by simp
  then show ?case using h'(2,3) r(2,3) by simp
qed

lemma tick_releases_all_holders:
  assumes holders: "list_all holding_clear (planes prev)"
    and nodue: "list_all (\<lambda>s. \<not> due_flight (gameTime prev + 1) s) (schedule prev)"
  shows "\<exists>s' g'. tick ref prev g = Inr (s', g')
     \<and> map p_id (planes s') = map p_id (planes prev)
     \<and> list_all (\<lambda>p. p_status p = TAKEOFF) (planes s')"
proof -
  let ?now = "gameTime prev + 1"
  obtain schedule1 g1 where s1: "schedule_phase ref prev ?now g = (schedule1, g1)"
    by (cases "schedule_phase ref prev ?now g")
  have nodue1: "list_all (\<lambda>s. \<not> due_flight ?now s) schedule1"
    using schedule_phase_none_due [OF nodue, of ref g] by (simp add: s1)
  let ?sp = "\<lparr>sp_newPlanes = [], sp_logs = logs prev, sp_economy = economy prev, sp_entropy = g1\<rparr>"
  have sp: "spawn_phase prev ?now schedule1 g1 = (schedule1, ?sp)"
    by (rule spawn_phase_none_due [OF nodue1])
  let ?st = "\<lparr>ps_occupancy = rebuild_occupancy (planes prev) (gateOccupancy prev),
        ps_economy = sp_economy ?sp, ps_schedule = schedule1,
        ps_logs = sp_logs ?sp, ps_entropy = sp_entropy ?sp\<rparr>"
  from physics_pass_holders [of "[]" "planes prev" "upgrades ref" ?now ?st] holders
  obtain out st' where r: "physics_pass (upgrades ref) ?now [] (planes prev) ?st = Inr (out, st')"
    "map p_id out = map p_id (planes prev)" "list_all (\<lambda>p. p_status p = TAKEOFF) out"
    by auto
  have pass: "physics_pass (upgrades ref) ?now [] (planes prev @ sp_newPlanes ?sp) ?st = Inr (out, st')"
    using r(1) by simp
  have keep: "filter (\<lambda>p. p_status p \<noteq> DEPARTED) out = out"
    using r(3) by (auto simp: list_all_iff filter_id_conv)
  show ?thesis
    using r(2,3) by (simp add: tick_unfold [OF s1 sp pass] keep)
qed

text \<open>
  Claim C5 says that a plane that holds short never becomes \<open>TAKEOFF\<close> while another plane
  is taking off. The tick does not keep to it: when every plane of the list holds short
  outside the box of the runway and no flight is due, the tick sets all of them to
  \<open>TAKEOFF\<close> at once, however many they are. Each plane is checked against the statuses of
  the beginning of the tick, in which no plane is taking off.
\<close>

theorem holders_released_together:
  "list_all holding_clear (planes prev)
     \<and> list_all (\<lambda>s. \<not> due_flight (gameTime prev + 1) s) (schedule prev) \<longrightarrow>
     (\<exists>s' g'. tick ref prev g = Inr (s', g')
        \<and> map p_id (planes s') = map p_id (planes prev)
        \<and> list_all (\<lambda>p. p_status p = TAKEOFF) (planes s'))"
  using tick_releases_all_holders by blast

text \<open>
  In \<open>holders_state\<close> the planes \<open>h\<close> and \<open>k\<close> hold short of a clear runway. After one tick
  both are \<open>TAKEOFF\<close>: \<open>k\<close> has been released although \<open>h\<close>, released before it in the
  same tick, occupies the runway.
\<close>

theorem holders_released_together_witness:
  "list_all holding_clear (planes holders_state)
   \<and> list_all (\<lambda>s. \<not> due_flight (gameTime holders_state + 1) s) (schedule holders_state)
   \<and> map p_id (planes holders_state) = [''h'', ''k'']
   \<and> map p_status (planes holders_state) = [HOLD_SHORT, HOLD_SHORT]
   \<and> \<not> isRunwayOccupied (planes holders_state) (Some ''h'')
   \<and> \<not> isRunwayOccupied (planes holders_state) (Some ''k'')
   \<and> \<not> incoming_traffic (planes holders_state)
   \<and> (\<exists>s' g'. tick holders_state holders_state example_entropy = Inr (s', g')
         \<and> map p_id (planes s') = [''h'', ''k'']
         \<and> map p_status (planes s') = [TAKEOFF, TAKEOFF]
         \<and> isRunwayOccupied (planes s') (Some ''k''))"
proof -
  note inst = holders_released_together [of holders_state holders_state example_entropy]
  have h: "list_all holding_clear (planes holders_state)"
    by (simp add: holders_state_def holding_clear_def example_plane_def)
  have d: "list_all (\<lambda>s. \<not> due_flight (gameTime holders_state + 1) s) (schedule holders_state)"
    by (simp add: holders_state_def due_flight_def example_flight_def)
  have p: "map p_id (planes holders_state) = [''h'', ''k'']"
    "map p_status (planes holders_state) = [HOLD_SHORT, HOLD_SHORT]"
    by (simp_all add: holders_state_def example_plane_def)
  have c: "\<not> isRunwayOccupied (planes holders_state) (Some ''h'')"
    "\<not> isRunwayOccupied (planes holders_state) (Some ''k'')"
    "\<not> incoming_traffic (planes holders_state)"
    by (simp_all add: holders_state_def example_plane_def isRunwayOccupied_def
          incoming_traffic_def)
  from inst h d obtain s' g' where
    r: "tick holders_state holders_state example_entropy = Inr (s', g')"
      "map p_id (planes s') = map p_id (planes holders_state)"
      "list_all (\<lambda>p. p_status p = TAKEOFF) (planes s')"
    by blast
  from r(2) p(1) obtain a b where ab: "planes s' = [a, b]" "p_id a = ''h''" "p_id b = ''k''"
    by auto
  have st: "p_status a = TAKEOFF" "p_status b = TAKEOFF" using r(3) ab(1) by simp_all
  have occ: "isRunwayOccupied (planes s') (Some ''k'')"
    unfolding isRunwayOccupied_iff using ab st by auto
  have e: "\<exists>s' g'. tick holders_state holders_state example_entropy = Inr (s', g')
         \<and> map p_id (planes s') = [''h'', ''k'']
         \<and> map p_status (planes s') = [TAKEOFF, TAKEOFF]
         \<and> isRunwayOccupied (planes s') (Some ''k'')"
    using r(1) ab st occ by (intro exI [of _ s'] exI [of _ g']) simp
  show ?thesis by (intro conjI h d p c e)
qed

section \<open>Waiting for a gate\<close>

lemma waiting_blocked_update:
  assumes w: "p_status plane = WAITING_FOR_GATE" and full: "getFreeGate occ ups = None"
  shows "\<exists>p'. updatePlanePhysics ups plane allPlanes occ = Inr p'
           \<and> p_status p' = WAITING_FOR_GATE \<and> targetGateId p' = targetGateId plane"
proof -
  let ?h = "hold_short_logic allPlanes (approach_logic allPlanes plane, initial_speed plane)"
  have h: "?h = (plane, initial_speed plane)"
    using w by (simp add: approach_logic_def hold_short_logic_def)
  have wl: "waiting_logic ups occ ?h = (plane, 0)"
    using w full by (simp add: h waiting_logic_blocked)
  let ?m = "movement plane (speed_logic (plane, 0))"
  have "state_transitions ups occ ?m = Inr ?m"
    using w by (simp add: state_transitions_def movement_frame)
  then show ?thesis
    using w by (simp add: updatePlanePhysics_def Let_def wl movement_frame)
qed

lemma waiting_assigned_update:
  assumes w: "p_status plane = WAITING_FOR_GATE" and free: "getFreeGate occ ups = Some gate"
  shows "\<exists>p' n. updatePlanePhysics ups plane allPlanes occ = Inr p'
           \<and> find (\<lambda>n. n_id n = gate) MAP_NODES = Some n
           \<and> targetGateId p' = Some gate \<and> p_status p' = TAXI_IN
           \<and> waypoints p' = gate_waypoints n"
proof -
  let ?h = "hold_short_logic allPlanes (approach_logic allPlanes plane, initial_speed plane)"
  have h: "?h = (plane, initial_speed plane)"
    using w by (simp add: approach_logic_def hold_short_logic_def)
  from waiting_logic_assigned [OF w free, of "initial_speed plane"] obtain n where
    n: "find (\<lambda>n. Some (n_id n) = Some gate) MAP_NODES = Some n"
    and wl: "waiting_logic ups occ (plane, initial_speed plane)
        = (plane\<lparr>targetGateId := Some gate, p_status := TAXI_IN, waypoints := gate_waypoints n\<rparr>, 0)"
    by blast
  let ?u = "plane\<lparr>targetGateId := Some gate, p_status := TAXI_IN, waypoints := gate_waypoints n\<rparr>"
  have sp: "speed_logic (?u, 0) = 0" by (simp add: speed_logic_def Let_def)
  let ?m = "movement ?u 0"
  have m: "waypoints ?m = gate_waypoints n" "p_status ?m = TAXI_IN" "targetGateId ?m = Some gate"
    by (simp_all add: movement_zero movement_frame)
  have "state_transitions ups occ ?m = Inr ?m"
    using m(1) by (simp add: state_transitions_def gate_waypoints_def)
  then have "updatePlanePhysics ups plane allPlanes occ = Inr ?m"
    by (simp add: updatePlanePhysics_def Let_def h wl sp)
  moreover have "find (\<lambda>n. n_id n = gate) MAP_NODES = Some n" using n by simp
  ultimately show ?thesis using m by blast
qed

lemma reset_occupancy_unclaimed: "gate_unclaimed (reset_occupancy occ) k"
  by (simp add: gate_unclaimed_def reset_occupancy_def truthy_def split: option.splits)

lemma claim_gate_unclaimed:
  "p_id p \<noteq> [] \<Longrightarrow>
   gate_unclaimed (claim_gate p occ) k \<longleftrightarrow> gate_unclaimed occ k \<and> \<not> claims_gate p k"
  by (auto simp: claim_gate_def claims_gate_def gate_unclaimed_def truthy_def split: option.splits)

lemma fold_claim_gate_unclaimed:
  "\<forall>p \<in> set ps. p_id p \<noteq> [] \<Longrightarrow>
   gate_unclaimed (fold claim_gate ps occ) k
     \<longleftrightarrow> gate_unclaimed occ k \<and> \<not> (\<exists>p \<in> set ps. claims_gate p k)"
  by (induction ps arbitrary: occ) (auto simp: claim_gate_unclaimed)

lemma rebuild_occupancy_unclaimed:
  "\<forall>p \<in> set ps. p_id p \<noteq> [] \<Longrightarrow>
   gate_unclaimed (rebuild_occupancy ps occ) k \<longleftrightarrow> \<not> (\<exists>p \<in> set ps. claims_gate p k)"
  by (simp add: rebuild_occupancy_def fold_claim_gate_unclaimed reset_occupancy_unclaimed)

lemma physics_pass_no_free_gate:
  "getFreeGate (ps_occupancy st) ups = None \<Longrightarrow>
   physics_pass ups now seen rest st = Inr (out, st') \<Longrightarrow>
   ps_occupancy st' = ps_occupancy st
   \<and> list_all2 (\<lambda>p p'. p_id p' = p_id p
        \<and> (p_status p = WAITING_FOR_GATE \<longrightarrow> p_status p' = WAITING_FOR_GATE)) rest out"
proof (induction rest arbitrary: seen st out)
  case Nil
  then show ?case by simp
next
  case (Cons p rest)
  from Cons.prems(2) obtain p' out' where
    p': "updatePlanePhysics ups p (seen @ p # rest) (ps_occupancy st) = Inr p'"
    and rest: "physics_pass ups now (seen @ [p\<lparr>position := position p'\<rparr>]) rest
                 (plane_events now p p' st) = Inr (out', st')"
    and out: "out = p' # out'"
    by (auto split: sum.splits)
  from update_no_free_gate [OF Cons.prems(1) p']
  have step: "targetGateId p' = targetGateId p \<or> targetGateId p' = None"
    "p_status p = WAITING_FOR_GATE \<longrightarrow> p_status p' = WAITING_FOR_GATE" "p_id p' = p_id p"
    by simp_all
  have occ: "ps_occupancy (plane_events now p p' st) = ps_occupancy st"
    using step(1) by (simp add: plane_events_occupancy gate_claim_event_same)
  from Cons.IH [OF _ rest] Cons.prems(1) occ step out show ?case by simp
qed

lemma list_all2_set1:
  "list_all2 P xs ys \<Longrightarrow> x \<in> set xs \<Longrightarrow> \<exists>y \<in> set ys. P x y"
  by (induction rule: list_all2_induct) auto

lemma tick_waiting_remains:
  assumes full: "getFreeGate (rebuild_occupancy (planes prev) (gateOccupancy prev)) (upgrades ref)
                 = None"
  shows "\<exists>s' g'. tick ref prev g = Inr (s', g')
     \<and> gateOccupancy s' = rebuild_occupancy (planes prev) (gateOccupancy prev)
     \<and> (\<forall>p \<in> set (planes prev). p_status p = WAITING_FOR_GATE \<longrightarrow>
           (\<exists>p' \<in> set (planes s'). p_id p' = p_id p \<and> p_status p' = WAITING_FOR_GATE))"
proof -
  let ?now = "gameTime prev + 1"
  obtain schedule1 g1 where s1: "schedule_phase ref prev ?now g = (schedule1, g1)"
    by (cases "schedule_phase ref prev ?now g")
  obtain schedule2 sp where sp: "spawn_phase prev ?now schedule1 g1 = (schedule2, sp)"
    by (cases "spawn_phase prev ?now schedule1 g1")
  let ?st = "\<lparr>ps_occupancy = rebuild_occupancy (planes prev) (gateOccupancy prev),
        ps_economy = sp_economy sp, ps_schedule = schedule2,
        ps_logs = sp_logs sp, ps_entropy = sp_entropy sp\<rparr>"
  obtain out st' where pass:
    "physics_pass (upgrades ref) ?now [] (planes prev @ sp_newPlanes sp) ?st = Inr (out, st')"
    using physics_pass_total by blast
  have "getFreeGate (ps_occupancy ?st) (upgrades ref) = None" using full by simp
  from physics_pass_no_free_gate [OF this pass]
  have occ: "ps_occupancy st' = rebuild_occupancy (planes prev) (gateOccupancy prev)"
    and rel: "list_all2 (\<lambda>p p'. p_id p' = p_id p
        \<and> (p_status p = WAITING_FOR_GATE \<longrightarrow> p_status p' = WAITING_FOR_GATE))
        (planes prev @ sp_newPlanes sp) out"
    by simp_all
  have "\<exists>p' \<in> set (filter (\<lambda>p. p_status p \<noteq> DEPARTED) out).
          p_id p' = p_id p \<and> p_status p' = WAITING_FOR_GATE"
    if "p \<in> set (planes prev)" "p_status p = WAITING_FOR_GATE" for p
  proof -
    from that(1) have "p \<in> set (planes prev @ sp_newPlanes sp)" by simp
    from list_all2_set1 [OF rel this] that(2) show ?thesis by auto
  qed
  then show ?thesis
    by (simp add: tick_unfold [OF s1 sp pass] occ)
qed


lemma physics_pass_first_requester:
  assumes "list_all (\<lambda>p. \<not> requests_gate p) pre"
    and "p_status w = WAITING_FOR_GATE"
    and "getFreeGate (ps_occupancy st) ups = Some k"
  shows "\<exists>out_pre w' out_post st' n.
           physics_pass ups now seen (pre @ w # post) st = Inr (out_pre @ w' # out_post, st')
           \<and> find (\<lambda>n. n_id n = k) MAP_NODES = Some n
           \<and> p_id w' = p_id w \<and> targetGateId w' = Some k \<and> p_status w' = TAXI_IN
           \<and> waypoints w' = gate_waypoints n"
  using assms
proof (induction pre arbitrary: seen st)
  case Nil
  from waiting_assigned_update [OF Nil(2,3), of "seen @ w # post"] obtain w' n where
    w': "updatePlanePhysics ups w (seen @ w # post) (ps_occupancy st) = Inr w'"
      "find (\<lambda>n. n_id n = k) MAP_NODES = Some n" "targetGateId w' = Some k"
      "p_status w' = TAXI_IN" "waypoints w' = gate_waypoints n"
    by blast
  have idw: "p_id w' = p_id w"
    using updatePlanePhysics_gate_step [OF _ w'(1)] Nil(2) by (simp add: gate_step_def gate_ok_def)
  obtain out st' where
    "physics_pass ups now (seen @ [w\<lparr>position := position w'\<rparr>]) post (plane_events now w w' st)
       = Inr (out, st')"
    using physics_pass_total by blast
  with w'(1) have "physics_pass ups now seen ([] @ w # post) st = Inr ([] @ w' # out, st')"
    by simp
  with w' idw show ?case by blast
next
  case (Cons p pre)
  obtain p' where p': "updatePlanePhysics ups p (seen @ p # pre @ w # post) (ps_occupancy st) = Inr p'"
    using updatePlanePhysics_total by blast
  have "\<not> requests_gate p" using Cons.prems(1) by simp
  from update_non_requester [OF this p']
  have occ: "ps_occupancy (plane_events now p p' st) = ps_occupancy st"
    by (simp add: plane_events_occupancy gate_claim_event_same)
  have pre: "list_all (\<lambda>p. \<not> requests_gate p) pre" using Cons.prems(1) by simp
  have free: "getFreeGate (ps_occupancy (plane_events now p p' st)) ups = Some k"
    using Cons.prems(3) by (simp add: occ)
  from Cons.IH [OF pre Cons.prems(2) free, of "seen @ [p\<lparr>position := position p'\<rparr>]"]
  obtain out_pre w' out_post st' n where
    r: "physics_pass ups now (seen @ [p\<lparr>position := position p'\<rparr>]) (pre @ w # post)
          (plane_events now p p' st) = Inr (out_pre @ w' # out_post, st')"
      "find (\<lambda>n. n_id n = k) MAP_NODES = Some n"
      "p_id w' = p_id w" "targetGateId w' = Some k" "p_status w' = TAXI_IN"
      "waypoints w' = gate_waypoints n"
    by blast
  have "physics_pass ups now seen ((p # pre) @ w # post) st
        = Inr ((p' # out_pre) @ w' # out_post, st')"
    using p' r(1) by simp
  with r show ?case by blast
qed

lemma tick_first_requester:
  assumes split: "planes prev = pre @ w # post"
    and pre: "list_all (\<lambda>p. \<not> requests_gate p) pre"
    and w: "p_status w = WAITING_FOR_GATE"
    and free: "getFreeGate (rebuild_occupancy (planes prev) (gateOccupancy prev)) (upgrades ref)
               = Some k"
  shows "\<exists>s' g' w' n. tick ref prev g = Inr (s', g') \<and> w' \<in> set (planes s')
     \<and> find (\<lambda>n. n_id n = k) MAP_NODES = Some n
     \<and> p_id w' = p_id w \<and> targetGateId w' = Some k \<and> p_status w' = TAXI_IN
     \<and> waypoints w' = gate_waypoints n"
proof -
  let ?now = "gameTime prev + 1"
  obtain schedule1 g1 where s1: "schedule_phase ref prev ?now g = (schedule1, g1)"
    by (cases "schedule_phase ref prev ?now g")
  obtain schedule2 sp where sp: "spawn_phase prev ?now schedule1 g1 = (schedule2, sp)"
    by (cases "spawn_phase prev ?now schedule1 g1")
  let ?st = "\<lparr>ps_occupancy = rebuild_occupancy (planes prev) (gateOccupancy prev),
        ps_economy = sp_economy sp, ps_schedule = schedule2,
        ps_logs = sp_logs sp, ps_entropy = sp_entropy sp\<rparr>"
  have free': "getFreeGate (ps_occupancy ?st) (upgrades ref) = Some k" using free by simp
  from physics_pass_first_requester [OF pre w free', of ?now "[]" "post @ sp_newPlanes sp"]
  obtain out_pre w' out_post st' n where
    r: "physics_pass (upgrades ref) ?now [] (pre @ w # post @ sp_newPlanes sp) ?st
          = Inr (out_pre @ w' # out_post, st')"
      "find (\<lambda>n. n_id n = k) MAP_NODES = Some n"
      "p_id w' = p_id w" "targetGateId w' = Some k" "p_status w' = TAXI_IN"
      "waypoints w' = gate_waypoints n"
    by blast
  have pass: "physics_pass (upgrades ref) ?now [] (planes prev @ sp_newPlanes sp) ?st
          = Inr (out_pre @ w' # out_post, st')"
    using r(1) by (simp add: split)
  have "w' \<in> set (filter (\<lambda>p. p_status p \<noteq> DEPARTED) (out_pre @ w' # out_post))"
    using r(5) by simp
  then show ?thesis
    using r(2-6) by (auto simp: tick_unfold [OF s1 sp pass])
qed

text \<open>
  Claim C6, as amended. A plane that waits for a gate stays \<open>WAITING_FOR_GATE\<close> in every
  tick in which \<^verbatim>\<open>getFreeGate\<close> finds no gate at its turn, and so in every tick whose
  snapshot of the gates, taken at the beginning of the tick, leaves no gate free. In a tick
  whose snapshot has a free gate, a waiting plane that is the first plane of the list to
  ask for a gate is assigned that gate, gets the two waypoints that lead to it and becomes
  \<open>TAXI_IN\<close>. A plane further back is assigned a gate when \<^verbatim>\<open>getFreeGate\<close> still
  returns one at its turn, from the occupancy map that holds the claims made earlier in
  the same tick. The snapshot claims a gate exactly when some plane that is taxiing in,
  parked or waiting references it: a gate given up in one tick is free in the snapshot of
  the next.
\<close>

theorem waiting_for_gate_retry:
  "(p_status plane = WAITING_FOR_GATE \<and> getFreeGate occ ups = None \<longrightarrow>
      (\<exists>p'. updatePlanePhysics ups plane allPlanes occ = Inr p'
         \<and> p_status p' = WAITING_FOR_GATE \<and> targetGateId p' = targetGateId plane))
   \<and> (p_status w = WAITING_FOR_GATE \<and> getFreeGate occ2 ups2 = Some gate \<longrightarrow>
      (\<exists>p' n. updatePlanePhysics ups2 w allPlanes2 occ2 = Inr p'
         \<and> find (\<lambda>n. n_id n = gate) MAP_NODES = Some n
         \<and> targetGateId p' = Some gate \<and> p_status p' = TAXI_IN
         \<and> waypoints p' = gate_waypoints n))
   \<and> (getFreeGate occ ups = None \<longleftrightarrow> (\<forall>k \<in> set (gate_list ups). \<not> gate_unclaimed occ k))
   \<and> ((\<forall>p \<in> set ps. p_id p \<noteq> []) \<longrightarrow>
        (gate_unclaimed (rebuild_occupancy ps occ0) k \<longleftrightarrow> \<not> (\<exists>p \<in> set ps. claims_gate p k)))
   \<and> (getFreeGate (rebuild_occupancy (planes prev) (gateOccupancy prev)) (upgrades ref) = None \<longrightarrow>
        (\<exists>s' g'. tick ref prev g = Inr (s', g')
           \<and> (\<forall>p \<in> set (planes prev). p_status p = WAITING_FOR_GATE \<longrightarrow>
                 (\<exists>p' \<in> set (planes s'). p_id p' = p_id p \<and> p_status p' = WAITING_FOR_GATE))))
   \<and> (planes prev3 = pre @ w3 # post \<and> list_all (\<lambda>p. \<not> requests_gate p) pre
        \<and> p_status w3 = WAITING_FOR_GATE
        \<and> getFreeGate (rebuild_occupancy (planes prev3) (gateOccupancy prev3)) (upgrades ref3)
            = Some gate3 \<longrightarrow>
        (\<exists>s' g' w' n. tick ref3 prev3 g3 = Inr (s', g') \<and> w' \<in> set (planes s')
           \<and> find (\<lambda>n. n_id n = gate3) MAP_NODES = Some n
           \<and> p_id w' = p_id w3 \<and> targetGateId w' = Some gate3 \<and> p_status w' = TAXI_IN
           \<and> waypoints w' = gate_waypoints n))"
proof (intro conjI impI)
  assume "p_status plane = WAITING_FOR_GATE \<and> getFreeGate occ ups = None"
  then show "\<exists>p'. updatePlanePhysics ups plane allPlanes occ = Inr p'
         \<and> p_status p' = WAITING_FOR_GATE \<and> targetGateId p' = targetGateId plane"
    using waiting_blocked_update by blast
next
  assume "p_status w = WAITING_FOR_GATE \<and> getFreeGate occ2 ups2 = Some gate"
  then show "\<exists>p' n. updatePlanePhysics ups2 w allPlanes2 occ2 = Inr p'
         \<and> find (\<lambda>n. n_id n = gate) MAP_NODES = Some n
         \<and> targetGateId p' = Some gate \<and> p_status p' = TAXI_IN
         \<and> waypoints p' = gate_waypoints n"
    using waiting_assigned_update by blast
next
  show "getFreeGate occ ups = None \<longleftrightarrow> (\<forall>k \<in> set (gate_list ups). \<not> gate_unclaimed occ k)"
    by (rule getFreeGate_None)
next
  assume "\<forall>p \<in> set ps. p_id p \<noteq> []"
  then show "gate_unclaimed (rebuild_occupancy ps occ0) k \<longleftrightarrow> \<not> (\<exists>p \<in> set ps. claims_gate p k)"
    by (rule rebuild_occupancy_unclaimed)
next
  assume "getFreeGate (rebuild_occupancy (planes prev) (gateOccupancy prev)) (upgrades ref) = None"
  from tick_waiting_remains [OF this, of g]
  show "\<exists>s' g'. tick ref prev g = Inr (s', g')
           \<and> (\<forall>p \<in> set (planes prev). p_status p = WAITING_FOR_GATE \<longrightarrow>
                 (\<exists>p' \<in> set (planes s'). p_id p' = p_id p \<and> p_status p' = WAITING_FOR_GATE))"
    by blast
next
  assume "planes prev3 = pre @ w3 # post \<and> list_all (\<lambda>p. \<not> requests_gate p) pre
        \<and> p_status w3 = WAITING_FOR_GATE
        \<and> getFreeGate (rebuild_occupancy (planes prev3) (gateOccupancy prev3)) (upgrades ref3)
            = Some gate3"
  then show "\<exists>s' g' w' n. tick ref3 prev3 g3 = Inr (s', g') \<and> w' \<in> set (planes s')
           \<and> find (\<lambda>n. n_id n = gate3) MAP_NODES = Some n
           \<and> p_id w' = p_id w3 \<and> targetGateId w' = Some gate3 \<and> p_status w' = TAXI_IN
           \<and> waypoints w' = gate_waypoints n"
    using tick_first_requester [of prev3 pre w3 post ref3 gate3 g3] by blast
qed

text \<open>Evaluating two ticks, and a square root met on the way.\<close>

lemma run_ticks_2:
  "run_ticks 2 s g = (case tick s s g of Inl e \<Rightarrow> Inl e | Inr (s1, g1) \<Rightarrow> tick s1 s1 g1)"
  by (simp add: numeral_2_eq_2)

lemma sqrt_10000 [simp]: "sqrt 10000 = 100"
  by (rule real_sqrt_unique) simp_all

text \<open>
  In \<open>waiting_state\<close> the plane at gate 3 leaves in the first tick, in which the waiting plane
  still finds every gate claimed; the state after that tick has the planes of
  \<open>freed_state\<close>, and in the second tick the waiting plane gets gate 3.
\<close>

theorem waiting_for_gate_retry_witness:
  "p_status (example_plane ''w'' WAITING_FOR_GATE 1300 850 None 0) = WAITING_FOR_GATE
   \<and> getFreeGate (rebuild_occupancy (planes waiting_state) (gateOccupancy waiting_state))
        (upgrades waiting_state) = None
   \<and> (\<exists>p'. updatePlanePhysics (upgrades waiting_state)
              (example_plane ''w'' WAITING_FOR_GATE 1300 850 None 0) (planes waiting_state)
              (rebuild_occupancy (planes waiting_state) (gateOccupancy waiting_state)) = Inr p'
         \<and> p_status p' = WAITING_FOR_GATE \<and> targetGateId p' = None)
   \<and> (\<exists>s' g'. tick waiting_state waiting_state example_entropy = Inr (s', g')
         \<and> planes s' = planes freed_state
         \<and> (\<exists>p' \<in> set (planes s'). p_id p' = ''w'' \<and> p_status p' = WAITING_FOR_GATE))
   \<and> list_all (\<lambda>p. p_id p \<noteq> []) (planes freed_state)
   \<and> gate_unclaimed (rebuild_occupancy (planes freed_state) (gateOccupancy freed_state))
        ''gate_3''
   \<and> planes freed_state
       = take 3 (planes freed_state) @ example_plane ''w'' WAITING_FOR_GATE 1300 850 None 0 # []
   \<and> list_all (\<lambda>p. \<not> requests_gate p) (take 3 (planes freed_state))
   \<and> getFreeGate (rebuild_occupancy (planes freed_state) (gateOccupancy freed_state))
        (upgrades freed_state) = Some ''gate_3''
   \<and> (\<exists>p' n. updatePlanePhysics (upgrades freed_state)
              (example_plane ''w'' WAITING_FOR_GATE 1300 850 None 0) (planes freed_state)
              (rebuild_occupancy (planes freed_state) (gateOccupancy freed_state)) = Inr p'
         \<and> find (\<lambda>n. n_id n = ''gate_3'') MAP_NODES = Some n
         \<and> targetGateId p' = Some ''gate_3'' \<and> p_status p' = TAXI_IN
         \<and> waypoints p' = gate_waypoints n)
   \<and> (\<exists>s' g' w' n. tick freed_state freed_state example_entropy = Inr (s', g')
         \<and> w' \<in> set (planes s')
         \<and> find (\<lambda>n. n_id n = ''gate_3'') MAP_NODES = Some n
         \<and> p_id w' = ''w'' \<and> targetGateId w' = Some ''gate_3'' \<and> p_status w' = TAXI_IN
         \<and> waypoints w' = gate_waypoints n)
   \<and> map (\<lambda>p. (p_id p, p_status p, targetGateId p, waypoints p))
        (planes (fst (projr (run_ticks 2 waiting_state example_entropy)))) ! 3
      = (''w'', TAXI_IN, Some ''gate_3'',
         [\<lparr>pos_x = 1200, pos_y = 850, heading = 180\<rparr>, \<lparr>pos_x = 1200, pos_y = 950, heading = 180\<rparr>])"
proof -
  let ?w = "example_plane ''w'' WAITING_FOR_GATE 1300 850 None 0"
  let ?full = "rebuild_occupancy (planes waiting_state) (gateOccupancy waiting_state)"
  let ?freed = "rebuild_occupancy (planes freed_state) (gateOccupancy freed_state)"
  note inst = waiting_for_gate_retry [of
      "example_plane ''w'' WAITING_FOR_GATE 1300 850 None 0"
      "rebuild_occupancy (planes waiting_state) (gateOccupancy waiting_state)"
      "upgrades waiting_state" "planes waiting_state"
      "example_plane ''w'' WAITING_FOR_GATE 1300 850 None 0"
      "rebuild_occupancy (planes freed_state) (gateOccupancy freed_state)"
      "upgrades freed_state" "''gate_3''" "planes freed_state"
      "planes freed_state" "gateOccupancy freed_state" "''gate_3''"
      waiting_state waiting_state example_entropy
      freed_state "take 3 (planes freed_state)"
      "example_plane ''w'' WAITING_FOR_GATE 1300 850 None 0" "[]" freed_state "''gate_3''"
      example_entropy]
  have w: "p_status ?w = WAITING_FOR_GATE" "targetGateId ?w = None" "p_id ?w = ''w''"
    by (simp_all add: example_plane_def)
  have full: "getFreeGate ?full (upgrades waiting_state) = None"
    by (simp add: engine_defs waiting_state_def)
  have free: "getFreeGate ?freed (upgrades freed_state) = Some ''gate_3''"
    by (simp add: engine_defs waiting_state_def freed_state_def)
  have ids: "\<forall>p \<in> set (planes freed_state). p_id p \<noteq> []"
    by (simp add: freed_state_def example_plane_def)
  then have ids': "list_all (\<lambda>p. p_id p \<noteq> []) (planes freed_state)"
    by (simp add: list_all_iff)
  have split: "planes freed_state = take 3 (planes freed_state) @ ?w # []"
    by (simp add: freed_state_def)
  have pre: "list_all (\<lambda>p. \<not> requests_gate p) (take 3 (planes freed_state))"
    by (simp add: freed_state_def example_plane_def requests_gate_def truthy_def)
  have c1: "\<exists>p'. updatePlanePhysics (upgrades waiting_state) ?w (planes waiting_state) ?full = Inr p'
         \<and> p_status p' = WAITING_FOR_GATE \<and> targetGateId p' = None"
    using inst w full by simp
  from inst full obtain s1 g1 where
    t1: "tick waiting_state waiting_state example_entropy = Inr (s1, g1)"
      "\<forall>p \<in> set (planes waiting_state). p_status p = WAITING_FOR_GATE \<longrightarrow>
          (\<exists>p' \<in> set (planes s1). p_id p' = p_id p \<and> p_status p' = WAITING_FOR_GATE)"
    by blast
  have "?w \<in> set (planes waiting_state)" by (simp add: waiting_state_def)
  with t1(2) w have stays: "\<exists>p' \<in> set (planes s1). p_id p' = ''w'' \<and> p_status p' = WAITING_FOR_GATE"
    by fastforce
  have "planes (fst (projr (tick waiting_state waiting_state example_entropy))) = planes freed_state"
    by (simp add: engine_defs waiting_state_def freed_state_def string_of_int_def
          string_of_nat.simps)
  with t1(1) have same: "planes s1 = planes freed_state" by simp
  have c2: "\<exists>s' g'. tick waiting_state waiting_state example_entropy = Inr (s', g')
         \<and> planes s' = planes freed_state
         \<and> (\<exists>p' \<in> set (planes s'). p_id p' = ''w'' \<and> p_status p' = WAITING_FOR_GATE)"
    using t1(1) same stays by (intro exI [of _ s1] exI [of _ g1] conjI)
  have c3: "gate_unclaimed ?freed ''gate_3''"
  proof -
    have "\<not> (\<exists>p \<in> set (planes freed_state). claims_gate p ''gate_3'')"
      by (simp add: freed_state_def example_plane_def claims_gate_def)
    then show ?thesis using inst ids by blast
  qed
  have c4: "\<exists>p' n. updatePlanePhysics (upgrades freed_state) ?w (planes freed_state) ?freed = Inr p'
         \<and> find (\<lambda>n. n_id n = ''gate_3'') MAP_NODES = Some n
         \<and> targetGateId p' = Some ''gate_3'' \<and> p_status p' = TAXI_IN
         \<and> waypoints p' = gate_waypoints n"
    using inst w(1) free by blast
  have c5: "\<exists>s' g' w' n. tick freed_state freed_state example_entropy = Inr (s', g')
         \<and> w' \<in> set (planes s')
         \<and> find (\<lambda>n. n_id n = ''gate_3'') MAP_NODES = Some n
         \<and> p_id w' = ''w'' \<and> targetGateId w' = Some ''gate_3'' \<and> p_status w' = TAXI_IN
         \<and> waypoints w' = gate_waypoints n"
    using inst split pre w(1) free by (simp only: w(3))
  have e2: "map (\<lambda>p. (p_id p, p_status p, targetGateId p, waypoints p))
        (planes (fst (projr (run_ticks 2 waiting_state example_entropy)))) ! 3
      = (''w'', TAXI_IN, Some ''gate_3'',
         [\<lparr>pos_x = 1200, pos_y = 850, heading = 180\<rparr>, \<lparr>pos_x = 1200, pos_y = 950, heading = 180\<rparr>])"
    by (simp add: run_ticks_2 engine_defs waiting_state_def string_of_int_def string_of_nat.simps
          moveTowards_def atan2_def)
  show ?thesis by (intro conjI w(1) full c1 c2 ids' c3 split pre free c4 c5 e2)
qed

text \<open>
  Claim C6 as it was stated fails when two planes wait: in \<open>queue_state\<close> the planes \<open>w\<close>
  and \<open>v\<close> wait while the three gates are claimed. The plane at gate 3 leaves in the first
  tick, so that gate 3 is free in the snapshot of the second tick. In the second tick \<open>w\<close>,
  which comes first in the list, gets gate 3, and \<open>v\<close> is still waiting without a gate.
\<close>

theorem waiting_for_gate_retry_counterexample:
  "map p_id (planes queue_state) = [''a'', ''b'', ''c'', ''w'', ''v'']
   \<and> map p_status (planes queue_state)
       = [PARKED, PARKED, PARKED, WAITING_FOR_GATE, WAITING_FOR_GATE]
   \<and> getFreeGate (rebuild_occupancy (planes queue_state) (gateOccupancy queue_state))
        (upgrades queue_state) = None
   \<and> \<not> isl (run_ticks 1 queue_state example_entropy)
   \<and> map p_status (planes (fst (projr (run_ticks 1 queue_state example_entropy))))
       = [PARKED, PARKED, TAXI_OUT, WAITING_FOR_GATE, WAITING_FOR_GATE]
   \<and> map targetGateId (planes (fst (projr (run_ticks 1 queue_state example_entropy))))
       = [Some ''gate_1'', Some ''gate_2'', None, None, None]
   \<and> getFreeGate
        (rebuild_occupancy (planes (fst (projr (run_ticks 1 queue_state example_entropy))))
           (gateOccupancy (fst (projr (run_ticks 1 queue_state example_entropy)))))
        (upgrades (fst (projr (run_ticks 1 queue_state example_entropy)))) = Some ''gate_3''
   \<and> \<not> isl (run_ticks 2 queue_state example_entropy)
   \<and> map p_id (planes (fst (projr (run_ticks 2 queue_state example_entropy))))
       = [''a'', ''b'', ''c'', ''w'', ''v'']
   \<and> map p_status (planes (fst (projr (run_ticks 2 queue_state example_entropy))))
       = [PARKED, PARKED, TAXI_OUT, TAXI_IN, WAITING_FOR_GATE]
   \<and> map targetGateId (planes (fst (projr (run_ticks 2 queue_state example_entropy))))
       = [Some ''gate_1'', Some ''gate_2'', None, Some ''gate_3'', None]"
proof -
  have t1: "run_ticks 1 queue_state example_entropy
      = tick queue_state queue_state example_entropy"
    by (simp add: One_nat_def)
  show ?thesis
    unfolding t1 run_ticks_2
    by (simp add: engine_defs waiting_state_def queue_state_def string_of_int_def
          string_of_nat.simps moveTowards_def atan2_def)
qed

section \<open>Departed planes leave the list\<close>

lemma tick_shape:
  "\<exists>out (st' :: PassState). tick ref prev g =
     Inr (prev\<lparr>gameTime := gameTime prev + 1, schedule := ps_schedule st',
               planes := filter (\<lambda>p. p_status p \<noteq> DEPARTED) out,
               economy := (if js_rem (gameTime prev + 1) 1440 = 0
                           then organic_growth (upgrades prev) (ps_economy st')
                           else ps_economy st'),
               logs := ps_logs st', gateOccupancy := ps_occupancy st'\<rparr>, ps_entropy st')"
proof -
  let ?now = "gameTime prev + 1"
  obtain schedule1 g1 where s1: "schedule_phase ref prev ?now g = (schedule1, g1)"
    by (cases "schedule_phase ref prev ?now g")
  obtain schedule2 sp where sp: "spawn_phase prev ?now schedule1 g1 = (schedule2, sp)"
    by (cases "spawn_phase prev ?now schedule1 g1")
  obtain out st' where pass:
    "physics_pass (upgrades ref) ?now [] (planes prev @ sp_newPlanes sp)
       \<lparr>ps_occupancy = rebuild_occupancy (planes prev) (gateOccupancy prev),
        ps_economy = sp_economy sp, ps_schedule = schedule2,
        ps_logs = sp_logs sp, ps_entropy = sp_entropy sp\<rparr> = Inr (out, st')"
    using physics_pass_total by blast
  show ?thesis
    by (rule exI [of _ out], rule exI [of _ st'], rule tick_unfold [OF s1 sp pass])
qed

lemma tick_no_departed:
  "\<exists>s' g'. tick ref prev g = Inr (s', g') \<and> list_all (\<lambda>p. p_status p \<noteq> DEPARTED) (planes s')"
proof -
  from tick_shape [of ref prev g] obtain out and st' :: PassState where
    t: "tick ref prev g =
     Inr (prev\<lparr>gameTime := gameTime prev + 1, schedule := ps_schedule st',
               planes := filter (\<lambda>p. p_status p \<noteq> DEPARTED) out,
               economy := (if js_rem (gameTime prev + 1) 1440 = 0
                           then organic_growth (upgrades prev) (ps_economy st')
                           else ps_economy st'),
               logs := ps_logs st', gateOccupancy := ps_occupancy st'\<rparr>, ps_entropy st')"
    by auto
  show ?thesis by (simp add: t list_all_iff)
qed

lemma run_ticks_total: "\<exists>s' g'. run_ticks n s g = Inr (s', g')"
proof (induction n)
  case 0
  show ?case by simp
next
  case (Suc n)
  then obtain s1 g1 where "run_ticks n s g = Inr (s1, g1)" by blast
  then show ?case using tick_no_departed [of s1 s1 g1] by auto
qed

lemma takeoff_update:
  assumes "p_status p = TAKEOFF"
    and "waypoints (movement p (speed_logic (p, initial_speed p))) = []"
  shows "\<exists>p'. updatePlanePhysics ups p allPlanes occ = Inr p' \<and> p_status p' = DEPARTED"
proof -
  have "waiting_logic ups occ (hold_short_logic allPlanes (approach_logic allPlanes p, initial_speed p))
        = (p, initial_speed p)"
    using assms(1) by (simp add: approach_logic_def hold_short_logic_def waiting_logic_def)
  then show ?thesis
    using assms by (simp add: updatePlanePhysics_def Let_def state_transitions_def movement_frame)
qed

text \<open>
  Claim C8. Every tick returns, and the state it returns has no plane with the status
  \<open>DEPARTED\<close>; so has the state after any positive number of ticks. A plane that takes off
  and has no waypoint left after its move becomes \<open>DEPARTED\<close> in \<^verbatim>\<open>updatePlanePhysics\<close>, and
  the filter at the end of the same tick drops it.
\<close>

theorem departed_planes_removed:
  "(\<exists>s' g'. tick ref prev g = Inr (s', g')
        \<and> list_all (\<lambda>p. p_status p \<noteq> DEPARTED) (planes s'))
   \<and> (\<exists>s' g'. run_ticks (Suc k) s g = Inr (s', g')
        \<and> list_all (\<lambda>p. p_status p \<noteq> DEPARTED) (planes s'))
   \<and> (p_status p = TAKEOFF
        \<and> waypoints (movement p (speed_logic (p, initial_speed p))) = [] \<longrightarrow>
      (\<exists>p'. updatePlanePhysics ups p allPlanes occ = Inr p' \<and> p_status p' = DEPARTED))"
proof (intro conjI impI)
  show "\<exists>s' g'. tick ref prev g = Inr (s', g')
        \<and> list_all (\<lambda>p. p_status p \<noteq> DEPARTED) (planes s')"
    by (rule tick_no_departed)
next
  obtain s1 g1 where "run_ticks k s g = Inr (s1, g1)" using run_ticks_total by blast
  then show "\<exists>s' g'. run_ticks (Suc k) s g = Inr (s', g')
        \<and> list_all (\<lambda>p. p_status p \<noteq> DEPARTED) (planes s')"
    using tick_no_departed [of s1 s1 g1] by simp
next
  assume "p_status p = TAKEOFF
        \<and> waypoints (movement p (speed_logic (p, initial_speed p))) = []"
  then show "\<exists>p'. updatePlanePhysics ups p allPlanes occ = Inr p' \<and> p_status p' = DEPARTED"
    using takeoff_update by blast
qed

text \<open>The plane \<open>t\<close> reaches its last waypoint and is gone after the tick.\<close>

theorem departed_planes_removed_witness:
  "p_status departing_plane = TAKEOFF
   \<and> waypoints (movement departing_plane
        (speed_logic (departing_plane, initial_speed departing_plane))) = []
   \<and> (\<exists>p'. updatePlanePhysics INITIAL_UPGRADES departing_plane (planes departure_state) Map.empty
              = Inr p' \<and> p_status p' = DEPARTED)
   \<and> map p_id (planes departure_state) = [''t'', ''a'']
   \<and> (\<exists>s' g'. tick departure_state departure_state example_entropy = Inr (s', g')
         \<and> list_all (\<lambda>p. p_status p \<noteq> DEPARTED) (planes s')
         \<and> map p_id (planes s') = [''a''])"
proof -
  note inst = departed_planes_removed [of departure_state departure_state example_entropy 0
      departure_state departing_plane INITIAL_UPGRADES "planes departure_state" Map.empty]
  have h: "p_status departing_plane = TAKEOFF"
    "waypoints (movement departing_plane
        (speed_logic (departing_plane, initial_speed departing_plane))) = []"
    by (simp_all add: departing_plane_def example_plane_def movement_def moveTowards_def
          speed_logic_def initial_speed_def SPEED_FACTOR_def Let_def)
  have c1: "\<exists>p'. updatePlanePhysics INITIAL_UPGRADES departing_plane (planes departure_state) Map.empty
              = Inr p' \<and> p_status p' = DEPARTED"
    using inst h by blast
  have before: "map p_id (planes departure_state) = [''t'', ''a'']"
    by (simp add: departure_state_def departing_plane_def example_plane_def)
  from inst obtain s' g' where
    t: "tick departure_state departure_state example_entropy = Inr (s', g')"
      "list_all (\<lambda>p. p_status p \<noteq> DEPARTED) (planes s')"
    by blast
  have "map p_id (planes (fst (projr (tick departure_state departure_state example_entropy))))
      = [''a'']"
    by (simp add: engine_defs departure_state_def departing_plane_def moveTowards_def)
  with t have c2: "\<exists>s' g'. tick departure_state departure_state example_entropy = Inr (s', g')
         \<and> list_all (\<lambda>p. p_status p \<noteq> DEPARTED) (planes s')
         \<and> map p_id (planes s') = [''a'']"
    by (intro exI [of _ s'] exI [of _ g']) simp
  show ?thesis by (intro conjI h c1 before c2)
qed

section \<open>Admission control\<close>

lemma spawn_flight_congested:
  assumes "w > 2 \<or> b > 3"
  shows "fst (spawn_flight w b now f st) = f\<lparr>f_status := Diverted\<rparr>"
    "sp_newPlanes (snd (spawn_flight w b now f st)) = sp_newPlanes st"
    "sp_economy (snd (spawn_flight w b now f st))
       = (sp_economy st)\<lparr>reputation := reputation (sp_economy st) - 2,
                         balance := balance (sp_economy st) - 500\<rparr>"
  using assms by (auto simp: spawn_flight_def split_beta)

lemma spawn_flight_clear:
  assumes "\<not> (w > 2 \<or> b > 3)"
  shows "fst (spawn_flight w b now f st) = f\<lparr>f_status := OnTime\<rparr>"
    "\<exists>p. sp_newPlanes (snd (spawn_flight w b now f st)) = sp_newPlanes st @ [p]
        \<and> p_id p = f_id f \<and> p_airline p = f_airline f \<and> p_flightNumber p = f_flightNumber f
        \<and> p_type p = f_type f \<and> p_status p = APPROACH \<and> targetGateId p = None"
    "sp_economy (snd (spawn_flight w b now f st)) = sp_economy st"
  using assms by (auto simp: spawn_flight_def split_beta Let_def createPlane_def)

lemma process_spawns_congested:
  assumes c: "w > 2 \<or> b > 3"
  shows "process_spawns w b now sched st = (sched', st') \<Longrightarrow>
     sched' = map (\<lambda>s. if due_flight now s then s\<lparr>f_status := Diverted\<rparr> else s) sched
     \<and> sp_newPlanes st' = sp_newPlanes st
     \<and> sp_economy st' = (sp_economy st)
          \<lparr>reputation := reputation (sp_economy st) - 2 * real (length (filter (due_flight now) sched)),
           balance := balance (sp_economy st) - 500 * real (length (filter (due_flight now) sched))\<rparr>"
proof (induction sched arbitrary: st sched' st')
  case Nil
  then show ?case by simp
next
  case (Cons s rest)
  show ?case
  proof (cases "due_flight now s")
    case False
    obtain r2 st2 where r: "process_spawns w b now rest st = (r2, st2)"
      by (cases "process_spawns w b now rest st")
    with Cons.prems False have "sched' = s # r2" "st' = st2" by simp_all
    with Cons.IH [OF r] False show ?thesis by simp
  next
    case True
    let ?st1 = "snd (spawn_flight w b now s st)"
    obtain r2 st2 where r: "process_spawns w b now rest ?st1 = (r2, st2)"
      by (cases "process_spawns w b now rest ?st1")
    with Cons.prems True have eq: "sched' = fst (spawn_flight w b now s st) # r2" "st' = st2"
      by (simp_all add: split_beta)
    from Cons.IH [OF r] eq True spawn_flight_congested [OF c, of now s st]
    show ?thesis by (simp add: algebra_simps)
  qed
qed

lemma process_spawns_clear:
  assumes c: "\<not> (w > 2 \<or> b > 3)"
  shows "process_spawns w b now sched st = (sched', st') \<Longrightarrow>
     sched' = map (\<lambda>s. if due_flight now s then s\<lparr>f_status := OnTime\<rparr> else s) sched
     \<and> sp_economy st' = sp_economy st
     \<and> (\<exists>new. sp_newPlanes st' = sp_newPlanes st @ new
           \<and> map (\<lambda>p. (p_id p, p_airline p, p_flightNumber p, p_type p)) new
               = map (\<lambda>f. (f_id f, f_airline f, f_flightNumber f, f_type f))
                   (filter (due_flight now) sched)
           \<and> list_all (\<lambda>p. p_status p = APPROACH \<and> targetGateId p = None) new)"
proof (induction sched arbitrary: st sched' st')
  case Nil
  then show ?case by simp
next
  case (Cons s rest)
  show ?case
  proof (cases "due_flight now s")
    case False
    obtain r2 st2 where r: "process_spawns w b now rest st = (r2, st2)"
      by (cases "process_spawns w b now rest st")
    with Cons.prems False have "sched' = s # r2" "st' = st2" by simp_all
    with Cons.IH [OF r] False show ?thesis by simp
  next
    case True
    let ?st1 = "snd (spawn_flight w b now s st)"
    obtain r2 st2 where r: "process_spawns w b now rest ?st1 = (r2, st2)"
      by (cases "process_spawns w b now rest ?st1")
    with Cons.prems True have eq: "sched' = fst (spawn_flight w b now s st) # r2" "st' = st2"
      by (simp_all add: split_beta)
    from spawn_flight_clear(2) [OF c, of now s st] obtain p where
      p: "sp_newPlanes ?st1 = sp_newPlanes st @ [p]" "p_id p = f_id s" "p_airline p = f_airline s"
        "p_flightNumber p = f_flightNumber s" "p_type p = f_type s" "p_status p = APPROACH"
        "targetGateId p = None"
      by blast
    from Cons.IH [OF r] obtain new where
      new: "r2 = map (\<lambda>s. if due_flight now s then s\<lparr>f_status := OnTime\<rparr> else s) rest"
        "sp_economy st2 = sp_economy ?st1"
        "sp_newPlanes st2 = sp_newPlanes ?st1 @ new"
        "map (\<lambda>p. (p_id p, p_airline p, p_flightNumber p, p_type p)) new
           = map (\<lambda>f. (f_id f, f_airline f, f_flightNumber f, f_type f))
               (filter (due_flight now) rest)"
        "list_all (\<lambda>p. p_status p = APPROACH \<and> targetGateId p = None) new"
      by blast
    have "sp_newPlanes st' = sp_newPlanes st @ (p # new)" using new(3) p(1) eq by simp
    moreover have "map (\<lambda>p. (p_id p, p_airline p, p_flightNumber p, p_type p)) (p # new)
           = map (\<lambda>f. (f_id f, f_airline f, f_flightNumber f, f_type f))
               (filter (due_flight now) (s # rest))"
      using True p new(4) by simp
    moreover have "list_all (\<lambda>p. p_status p = APPROACH \<and> targetGateId p = None) (p # new)"
      using p new(5) by simp
    ultimately have "\<exists>new. sp_newPlanes st' = sp_newPlanes st @ new
           \<and> map (\<lambda>p. (p_id p, p_airline p, p_flightNumber p, p_type p)) new
               = map (\<lambda>f. (f_id f, f_airline f, f_flightNumber f, f_type f))
                   (filter (due_flight now) (s # rest))
           \<and> list_all (\<lambda>p. p_status p = APPROACH \<and> targetGateId p = None) new"
      by blast
    then show ?thesis
      using eq new(1,2) True spawn_flight_clear(1,3) [OF c, of now s st] by simp
  qed
qed

text \<open>
  Steps 2 and 3 of the tick, on the schedule that step 1 leaves. When more than two planes
  wait for a gate or more than three hold short, every flight that is due is set to
  \<open>Diverted\<close>, no plane is created, and the balance loses 500 and the reputation 2 for each
  such flight. Otherwise every flight that is due is set to \<open>OnTime\<close> and exactly one plane
  is created for it, on approach, with the flight's identifier, airline, flight number and
  type; the economy is left alone. Flights that are not due are not touched.
\<close>

lemma spawn_phase_admission:
  "(2 < length (filter (\<lambda>p. p_status p = WAITING_FOR_GATE) (planes prev))
      \<or> 3 < length (filter (\<lambda>p. p_status p = HOLD_SHORT) (planes prev)) \<longrightarrow>
      (\<exists>sched' sp. spawn_phase prev now sched g = (sched', sp)
         \<and> sched' = map (\<lambda>s. if due_flight now s then s\<lparr>f_status := Diverted\<rparr> else s) sched
         \<and> sp_newPlanes sp = []
         \<and> balance (sp_economy sp)
             = balance (economy prev) - 500 * real (length (filter (due_flight now) sched))
         \<and> reputation (sp_economy sp)
             = reputation (economy prev) - 2 * real (length (filter (due_flight now) sched))))
   \<and> (\<not> (2 < length (filter (\<lambda>p. p_status p = WAITING_FOR_GATE) (planes prev2))
           \<or> 3 < length (filter (\<lambda>p. p_status p = HOLD_SHORT) (planes prev2))) \<longrightarrow>
      (\<exists>sched' sp. spawn_phase prev2 now2 sched2 g2 = (sched', sp)
         \<and> sched' = map (\<lambda>s. if due_flight now2 s then s\<lparr>f_status := OnTime\<rparr> else s) sched2
         \<and> map (\<lambda>p. (p_id p, p_airline p, p_flightNumber p, p_type p)) (sp_newPlanes sp)
             = map (\<lambda>f. (f_id f, f_airline f, f_flightNumber f, f_type f))
                 (filter (due_flight now2) sched2)
         \<and> list_all (\<lambda>p. p_status p = APPROACH \<and> targetGateId p = None) (sp_newPlanes sp)
         \<and> sp_economy sp = economy prev2))"
proof (intro conjI impI)
  assume c: "2 < length (filter (\<lambda>p. p_status p = WAITING_FOR_GATE) (planes prev))
      \<or> 3 < length (filter (\<lambda>p. p_status p = HOLD_SHORT) (planes prev))"
  obtain sched' sp where sp: "spawn_phase prev now sched g = (sched', sp)"
    by (cases "spawn_phase prev now sched g")
  from process_spawns_congested [OF c sp [unfolded spawn_phase_def Let_def]]
  show "\<exists>sched' sp. spawn_phase prev now sched g = (sched', sp)
         \<and> sched' = map (\<lambda>s. if due_flight now s then s\<lparr>f_status := Diverted\<rparr> else s) sched
         \<and> sp_newPlanes sp = []
         \<and> balance (sp_economy sp)
             = balance (economy prev) - 500 * real (length (filter (due_flight now) sched))
         \<and> reputation (sp_economy sp)
             = reputation (economy prev) - 2 * real (length (filter (due_flight now) sched))"
    using sp by simp
next
  assume c: "\<not> (2 < length (filter (\<lambda>p. p_status p = WAITING_FOR_GATE) (planes prev2))
           \<or> 3 < length (filter (\<lambda>p. p_status p = HOLD_SHORT) (planes prev2)))"
  obtain sched' sp where sp: "spawn_phase prev2 now2 sched2 g2 = (sched', sp)"
    by (cases "spawn_phase prev2 now2 sched2 g2")
  from process_spawns_clear [OF c sp [unfolded spawn_phase_def Let_def]]
  show "\<exists>sched' sp. spawn_phase prev2 now2 sched2 g2 = (sched', sp)
         \<and> sched' = map (\<lambda>s. if due_flight now2 s then s\<lparr>f_status := OnTime\<rparr> else s) sched2
         \<and> map (\<lambda>p. (p_id p, p_airline p, p_flightNumber p, p_type p)) (sp_newPlanes sp)
             = map (\<lambda>f. (f_id f, f_airline f, f_flightNumber f, f_type f))
                 (filter (due_flight now2) sched2)
         \<and> list_all (\<lambda>p. p_status p = APPROACH \<and> targetGateId p = None) (sp_newPlanes sp)
         \<and> sp_economy sp = economy prev2"
    using sp by auto
qed

text \<open>
  The physics pass changes no scheduled time, and no status but to \<open>Departed\<close>.
\<close>

lemma mark_departed_later:
  "list_all (\<lambda>f. now < scheduledTime f \<and> (f_status f = Scheduled \<or> f_status f = Departed)) xs \<Longrightarrow>
   list_all (\<lambda>f. now < scheduledTime f \<and> (f_status f = Scheduled \<or> f_status f = Departed))
     (mark_departed pid xs)"
  by (induction xs) simp_all

lemma plane_events_later:
  "list_all (\<lambda>f. t < scheduledTime f \<and> (f_status f = Scheduled \<or> f_status f = Departed))
     (ps_schedule st) \<Longrightarrow>
   list_all (\<lambda>f. t < scheduledTime f \<and> (f_status f = Scheduled \<or> f_status f = Departed))
     (ps_schedule (plane_events now p p' st))"
  by (simp add: plane_events_def go_around_event_def revenue_event_def gate_claim_event_def
        split_beta mark_departed_later split: option.splits)

lemma physics_pass_later:
  "physics_pass ups now seen rest st = Inr (out, st') \<Longrightarrow>
   list_all (\<lambda>f. t < scheduledTime f \<and> (f_status f = Scheduled \<or> f_status f = Departed))
     (ps_schedule st) \<Longrightarrow>
   length out = length rest
   \<and> list_all (\<lambda>f. t < scheduledTime f \<and> (f_status f = Scheduled \<or> f_status f = Departed))
       (ps_schedule st')"
proof (induction rest arbitrary: seen st out)
  case Nil
  then show ?case by simp
next
  case (Cons p rest)
  from Cons.prems(1) obtain p' out' where
    r: "physics_pass ups now (seen @ [p\<lparr>position := position p'\<rparr>]) rest (plane_events now p p' st)
       = Inr (out', st')" and out: "out = p' # out'"
    by (auto split: sum.splits)
  from Cons.IH [OF r plane_events_later [OF Cons.prems(2)]] out show ?case by simp
qed

lemma tick_regenerating:
  assumes regen: "js_rem (gameTime prev + 1) 360 = 0 \<or> length (schedule prev) < 3"
  shows "\<exists>s' g'. tick ref prev g = Inr (s', g') \<and> gameTime s' = gameTime prev + 1
     \<and> list_all (\<lambda>f. gameTime prev + 1 < scheduledTime f
                      \<and> (f_status f = Scheduled \<or> f_status f = Departed)) (schedule s')
     \<and> length (planes s') \<le> length (planes prev)
     \<and> (planes prev = [] \<longrightarrow>
          logs s' = logs prev \<and> balance (economy s') = balance (economy prev)
          \<and> reputation (economy s') = reputation (economy prev))"
proof -
  let ?now = "gameTime prev + 1"
  obtain schedule1 g1 where s1: "schedule_phase ref prev ?now g = (schedule1, g1)"
    by (cases "schedule_phase ref prev ?now g")
  have pend: "list_all (pending_flight ?now) schedule1"
    using schedule_phase_regenerates [OF regen, of ref g] by (simp add: s1)
  then have nodue: "list_all (\<lambda>s. \<not> due_flight ?now s) schedule1"
    by (auto simp: list_all_iff pending_not_due)
  let ?sp = "\<lparr>sp_newPlanes = [], sp_logs = logs prev, sp_economy = economy prev, sp_entropy = g1\<rparr>"
  have sp: "spawn_phase prev ?now schedule1 g1 = (schedule1, ?sp)"
    by (rule spawn_phase_none_due [OF nodue])
  let ?st = "\<lparr>ps_occupancy = rebuild_occupancy (planes prev) (gateOccupancy prev),
        ps_economy = sp_economy ?sp, ps_schedule = schedule1,
        ps_logs = sp_logs ?sp, ps_entropy = sp_entropy ?sp\<rparr>"
  obtain out st' where pass:
    "physics_pass (upgrades ref) ?now [] (planes prev @ sp_newPlanes ?sp) ?st = Inr (out, st')"
    using physics_pass_total by blast
  have "list_all (\<lambda>f. ?now < scheduledTime f \<and> (f_status f = Scheduled \<or> f_status f = Departed))
      (ps_schedule ?st)"
    using pend by (auto simp: list_all_iff pending_flight_def)
  from physics_pass_later [OF pass this]
  have len: "length out = length (planes prev)"
    and later: "list_all (\<lambda>f. ?now < scheduledTime f
        \<and> (f_status f = Scheduled \<or> f_status f = Departed)) (ps_schedule st')"
    by simp_all
  have "length (filter (\<lambda>p. p_status p \<noteq> DEPARTED) out) \<le> length (planes prev)"
    using length_filter_le [of _ out] by (simp add: len)
  moreover have "ps_logs st' = logs prev \<and> ps_economy st' = economy prev" if "planes prev = []"
    using pass that by auto
  ultimately show ?thesis
    using later by (auto simp: tick_unfold [OF s1 sp pass] organic_growth_def Let_def)
qed

text \<open>
  Claim C4 says that a flight whose time arrives is diverted or spawned. The tick does not
  keep to it in the ticks that top up the schedule, every 360 ticks and whenever the
  schedule has fewer than three entries. Step 1 of such a tick keeps only the flights
  scheduled after the current tick, so that a flight due at this very tick has left the
  schedule before step 2 looks for the flights that are due: after the tick every entry
  of the schedule lies in the future, none is \<open>Diverted\<close> or \<open>OnTime\<close>, and no plane has
  been added; at an airport without planes neither the log nor the balance nor the
  reputation has changed.
\<close>

theorem due_flights_dropped:
  "js_rem (gameTime prev + 1) 360 = 0 \<or> length (schedule prev) < 3 \<longrightarrow>
     (\<exists>s' g'. tick ref prev g = Inr (s', g') \<and> gameTime s' = gameTime prev + 1
        \<and> list_all (\<lambda>f. gameTime prev + 1 < scheduledTime f
                         \<and> (f_status f = Scheduled \<or> f_status f = Departed)) (schedule s')
        \<and> length (planes s') \<le> length (planes prev)
        \<and> (planes prev = [] \<longrightarrow>
             logs s' = logs prev \<and> balance (economy s') = balance (economy prev)
             \<and> reputation (economy s') = reputation (economy prev)))"
  using tick_regenerating by blast

text \<open>
  In \<open>regen_state\<close> the flight \<open>x\<close> is \<open>Scheduled\<close> for tick 360 and the airport is empty.
  The tick that reaches 360 tops up the schedule: afterwards no entry is scheduled at
  360, there is no plane, and no penalty was taken.
\<close>

theorem due_flights_dropped_witness:
  "js_rem (gameTime regen_state + 1) 360 = 0
   \<and> map f_id (schedule regen_state) = [''x'', ''y'', ''z'']
   \<and> map scheduledTime (schedule regen_state) = [360, 500, 600]
   \<and> map f_status (schedule regen_state) = [Scheduled, Scheduled, Scheduled]
   \<and> due_flight (gameTime regen_state + 1) (schedule regen_state ! 0)
   \<and> planes regen_state = [] \<and> logs regen_state = []
   \<and> balance (economy regen_state) = 200000 \<and> reputation (economy regen_state) = 80
   \<and> (\<exists>s' g'. tick regen_state regen_state example_entropy = Inr (s', g')
         \<and> gameTime s' = 360
         \<and> list_all (\<lambda>f. 360 < scheduledTime f
                          \<and> (f_status f = Scheduled \<or> f_status f = Departed)) (schedule s')
         \<and> planes s' = [] \<and> logs s' = []
         \<and> balance (economy s') = 200000 \<and> reputation (economy s') = 80)"
proof -
  note inst = due_flights_dropped [of regen_state regen_state example_entropy]
  have t: "js_rem (gameTime regen_state + 1) 360 = 0"
    by (simp add: regen_state_def js_rem_def)
  have s: "map f_id (schedule regen_state) = [''x'', ''y'', ''z'']"
    "map scheduledTime (schedule regen_state) = [360, 500, 600]"
    "map f_status (schedule regen_state) = [Scheduled, Scheduled, Scheduled]"
    "due_flight (gameTime regen_state + 1) (schedule regen_state ! 0)"
    by (simp_all add: regen_state_def example_flight_def due_flight_def)
  have e: "planes regen_state = []" "logs regen_state = []"
    "balance (economy regen_state) = 200000" "reputation (economy regen_state) = 80"
    "gameTime regen_state + 1 = 360"
    by (simp_all add: regen_state_def initial_state_def INITIAL_ECONOMY_def)
  from inst t obtain s' g' where
    r: "tick regen_state regen_state example_entropy = Inr (s', g')"
      "gameTime s' = gameTime regen_state + 1"
      "list_all (\<lambda>f. gameTime regen_state + 1 < scheduledTime f
                      \<and> (f_status f = Scheduled \<or> f_status f = Departed)) (schedule s')"
      "length (planes s') \<le> length (planes regen_state)"
      "planes regen_state = [] \<longrightarrow>
         logs s' = logs regen_state \<and> balance (economy s') = balance (economy regen_state)
         \<and> reputation (economy s') = reputation (economy regen_state)"
    by blast
  have c: "\<exists>s' g'. tick regen_state regen_state example_entropy = Inr (s', g')
         \<and> gameTime s' = 360
         \<and> list_all (\<lambda>f. 360 < scheduledTime f
                          \<and> (f_status f = Scheduled \<or> f_status f = Departed)) (schedule s')
         \<and> planes s' = [] \<and> logs s' = []
         \<and> balance (economy s') = 200000 \<and> reputation (economy s') = 80"
    using r e by (intro exI [of _ s'] exI [of _ g']) simp
  show ?thesis by (intro conjI t s e(1-4) c)
qed

section \<open>Commands\<close>

lemma addLog_frame:
  "economy (fst (addLog msg ty s g)) = economy s"
  "upgrades (fst (addLog msg ty s g)) = upgrades s"
  "planes (fst (addLog msg ty s g)) = planes s"
  "schedule (fst (addLog msg ty s g)) = schedule s"
  "gameTime (fst (addLog msg ty s g)) = gameTime s"
  "gateOccupancy (fst (addLog msg ty s g)) = gateOccupancy s"
  "logs (fst (addLog msg ty s g)) = push_log (uuids g (upos g)) msg ty (gameTime s) (logs s)"
  by (simp_all add: addLog_def uuidv4_def)

lemma apply_effect_frame:
  "upgrades (apply_effect e s) = upgrades s"
  "balance (economy (apply_effect e s)) = balance (economy s)"
  "reputation (economy (apply_effect e s)) = reputation (economy s)"
  "industryScore (economy (apply_effect e s)) = industryScore (economy s)"
  "demand (economy (apply_effect e s))
     = demand (economy s) + (case e of AddDemand n \<Rightarrow> n | _ \<Rightarrow> 0)"
  "tourismScore (economy (apply_effect e s))
     = tourismScore (economy s) + (case e of AddTourism n \<Rightarrow> n | _ \<Rightarrow> 0)"
  "planes (apply_effect e s) = planes s"
  "schedule (apply_effect e s) = schedule s"
  "gameTime (apply_effect e s) = gameTime s"
  "gateOccupancy (apply_effect e s) = gateOccupancy s"
  by (cases e; simp add: apply_effect_def)+

lemma find_after_unlock:
  "find (\<lambda>u. u_id u = uid) ups = Some u \<Longrightarrow>
   find (\<lambda>u. u_id u = uid) (map (\<lambda>u. if u_id u = uid then u\<lparr>unlocked := True\<rparr> else u) ups)
     = Some (u\<lparr>unlocked := True\<rparr>)"
  by (induction ups) (auto split: if_splits)

lemma purchaseUpgrade_refused:
  assumes "find (\<lambda>u. u_id u = uid) (upgrades prev) = None
     \<or> (\<exists>u. find (\<lambda>u. u_id u = uid) (upgrades prev) = Some u
            \<and> (unlocked u \<or> balance (economy prev) < cost u))"
  shows "purchaseUpgrade uid prev g = (prev, g)"
  using assms by (auto simp: purchaseUpgrade_def)

lemma purchaseUpgrade_bought:
  assumes f: "find (\<lambda>u. u_id u = uid) (upgrades prev) = Some u"
    and ok: "\<not> unlocked u" "cost u \<le> balance (economy prev)"
  shows "\<exists>s' g'. purchaseUpgrade uid prev g = (s', g')
     \<and> balance (economy s') = balance (economy prev) - cost u
     \<and> upgrades s' = map (\<lambda>v. if u_id v = uid then v\<lparr>unlocked := True\<rparr> else v) (upgrades prev)
     \<and> find (\<lambda>v. u_id v = uid) (upgrades s') = Some (u\<lparr>unlocked := True\<rparr>)
     \<and> demand (economy s')
          = demand (economy prev) + (case effect u of AddDemand n \<Rightarrow> n | _ \<Rightarrow> 0)
     \<and> tourismScore (economy s')
          = tourismScore (economy prev) + (case effect u of AddTourism n \<Rightarrow> n | _ \<Rightarrow> 0)
     \<and> industryScore (economy s') = industryScore (economy prev)
     \<and> reputation (economy s') = reputation (economy prev)
     \<and> planes s' = planes prev \<and> schedule s' = schedule prev \<and> gameTime s' = gameTime prev
     \<and> purchaseUpgrade uid s' g' = (s', g')"
proof -
  let ?new = "prev\<lparr>economy := (economy prev)\<lparr>balance := balance (economy prev) - cost u\<rparr>,
                  upgrades := map (\<lambda>v. if u_id v = uid then v\<lparr>unlocked := True\<rparr> else v)
                                (upgrades prev)\<rparr>"
  let ?r = "addLog (''Purchased '' @ u_name u) log_success (apply_effect (effect u) ?new) g"
  have eq: "purchaseUpgrade uid prev g = ?r"
    using f ok by (simp add: purchaseUpgrade_def Let_def)
  have ups: "upgrades (fst ?r) = map (\<lambda>v. if u_id v = uid then v\<lparr>unlocked := True\<rparr> else v) (upgrades prev)"
    by (simp add: addLog_frame apply_effect_frame)
  have found: "find (\<lambda>v. u_id v = uid) (upgrades (fst ?r)) = Some (u\<lparr>unlocked := True\<rparr>)"
    unfolding ups using f by (rule find_after_unlock)
  have again: "purchaseUpgrade uid (fst ?r) (snd ?r) = (fst ?r, snd ?r)"
    using found by (intro purchaseUpgrade_refused) simp
  show ?thesis
    apply (rule exI [of _ "fst ?r"], rule exI [of _ "snd ?r"])
    using found again ups by (simp add: eq addLog_frame apply_effect_frame)
qed

text \<open>
  Claim C7. \<^verbatim>\<open>purchaseUpgrade\<close> returns the state it was given when no upgrade has the
  identifier, when the upgrade is unlocked already, or when the balance is below its cost.
  Otherwise it takes the cost off the balance, unlocks the upgrade and applies its effect
  once (the demand or the tourism score grows by the amount of the effect, the other
  counters stay); buying the same upgrade again then changes nothing.
\<close>

theorem purchaseUpgrade_contract:
  "(find (\<lambda>u. u_id u = uid) (upgrades prev) = None
      \<or> (\<exists>u. find (\<lambda>u. u_id u = uid) (upgrades prev) = Some u
             \<and> (unlocked u \<or> balance (economy prev) < cost u))
      \<longrightarrow> purchaseUpgrade uid prev g = (prev, g))
   \<and> (find (\<lambda>u. u_id u = uid2) (upgrades prev2) = Some u2 \<and> \<not> unlocked u2
        \<and> cost u2 \<le> balance (economy prev2) \<longrightarrow>
      (\<exists>s' g'. purchaseUpgrade uid2 prev2 g2 = (s', g')
         \<and> balance (economy s') = balance (economy prev2) - cost u2
         \<and> upgrades s'
             = map (\<lambda>v. if u_id v = uid2 then v\<lparr>unlocked := True\<rparr> else v) (upgrades prev2)
         \<and> find (\<lambda>v. u_id v = uid2) (upgrades s') = Some (u2\<lparr>unlocked := True\<rparr>)
         \<and> demand (economy s')
              = demand (economy prev2) + (case effect u2 of AddDemand n \<Rightarrow> n | _ \<Rightarrow> 0)
         \<and> tourismScore (economy s')
              = tourismScore (economy prev2) + (case effect u2 of AddTourism n \<Rightarrow> n | _ \<Rightarrow> 0)
         \<and> industryScore (economy s') = industryScore (economy prev2)
         \<and> reputation (economy s') = reputation (economy prev2)
         \<and> planes s' = planes prev2 \<and> schedule s' = schedule prev2
         \<and> gameTime s' = gameTime prev2
         \<and> purchaseUpgrade uid2 s' g' = (s', g')))"
proof (intro conjI impI)
  assume "find (\<lambda>u. u_id u = uid) (upgrades prev) = None
      \<or> (\<exists>u. find (\<lambda>u. u_id u = uid) (upgrades prev) = Some u
             \<and> (unlocked u \<or> balance (economy prev) < cost u))"
  then show "purchaseUpgrade uid prev g = (prev, g)" by (rule purchaseUpgrade_refused)
next
  assume "find (\<lambda>u. u_id u = uid2) (upgrades prev2) = Some u2 \<and> \<not> unlocked u2
        \<and> cost u2 \<le> balance (economy prev2)"
  then show "\<exists>s' g'. purchaseUpgrade uid2 prev2 g2 = (s', g')
         \<and> balance (economy s') = balance (economy prev2) - cost u2
         \<and> upgrades s'
             = map (\<lambda>v. if u_id v = uid2 then v\<lparr>unlocked := True\<rparr> else v) (upgrades prev2)
         \<and> find (\<lambda>v. u_id v = uid2) (upgrades s') = Some (u2\<lparr>unlocked := True\<rparr>)
         \<and> demand (economy s')
              = demand (economy prev2) + (case effect u2 of AddDemand n \<Rightarrow> n | _ \<Rightarrow> 0)
         \<and> tourismScore (economy s')
              = tourismScore (economy prev2) + (case effect u2 of AddTourism n \<Rightarrow> n | _ \<Rightarrow> 0)
         \<and> industryScore (economy s') = industryScore (economy prev2)
         \<and> reputation (economy s') = reputation (economy prev2)
         \<and> planes s' = planes prev2 \<and> schedule s' = schedule prev2
         \<and> gameTime s' = gameTime prev2
         \<and> purchaseUpgrade uid2 s' g' = (s', g')"
    using purchaseUpgrade_bought [of uid2 prev2 u2 g2] by blast
qed

text \<open>
  The radar system costs 450000: it cannot be bought with 200000, and with 500000 it leaves
  50000 and adds 25 to the demand of 40.
\<close>

theorem purchaseUpgrade_contract_witness:
  "(\<exists>u. find (\<lambda>u. u_id u = ''radar_system'') (upgrades (initial_state False)) = Some u
        \<and> (unlocked u \<or> balance (economy (initial_state False)) < cost u))
   \<and> purchaseUpgrade ''radar_system'' (initial_state False) example_entropy
       = (initial_state False, example_entropy)
   \<and> find (\<lambda>u. u_id u = ''radar_system'') (upgrades rich_state) = Some (INITIAL_UPGRADES ! 2)
   \<and> \<not> unlocked (INITIAL_UPGRADES ! 2)
   \<and> cost (INITIAL_UPGRADES ! 2) \<le> balance (economy rich_state)
   \<and> (\<exists>s' g'. purchaseUpgrade ''radar_system'' rich_state example_entropy = (s', g')
         \<and> balance (economy s') = 50000
         \<and> map unlocked (upgrades s') = [False, False, True, False]
         \<and> demand (economy s') = 65
         \<and> tourismScore (economy s') = 20
         \<and> purchaseUpgrade ''radar_system'' s' g' = (s', g'))"
proof -
  note inst = purchaseUpgrade_contract [of "''radar_system''" "initial_state False" example_entropy
      "''radar_system''" rich_state "INITIAL_UPGRADES ! 2" example_entropy]
  have radar: "INITIAL_UPGRADES ! 2
      = \<lparr>u_id = ''radar_system'', u_name = ''NextGen Radar Coverage'',
         u_description = ''Increases airspace efficiency, allowing 25% more flights.'',
         cost = 450000, unlocked = False, effect = AddDemand 25, prerequisite = None\<rparr>"
    by (simp add: INITIAL_UPGRADES_def)
  have poor: "\<exists>u. find (\<lambda>u. u_id u = ''radar_system'') (upgrades (initial_state False)) = Some u
        \<and> (unlocked u \<or> balance (economy (initial_state False)) < cost u)"
    by (simp add: initial_state_def INITIAL_UPGRADES_def INITIAL_ECONOMY_def)
  have c1: "purchaseUpgrade ''radar_system'' (initial_state False) example_entropy
       = (initial_state False, example_entropy)"
    using inst poor by blast
  have h: "find (\<lambda>u. u_id u = ''radar_system'') (upgrades rich_state) = Some (INITIAL_UPGRADES ! 2)"
    "\<not> unlocked (INITIAL_UPGRADES ! 2)"
    "cost (INITIAL_UPGRADES ! 2) \<le> balance (economy rich_state)"
    by (simp_all add: radar) (simp_all add: rich_state_def initial_state_def INITIAL_UPGRADES_def)
  from inst h obtain s' g' where
    b: "purchaseUpgrade ''radar_system'' rich_state example_entropy = (s', g')"
      "balance (economy s') = balance (economy rich_state) - cost (INITIAL_UPGRADES ! 2)"
      "upgrades s' = map (\<lambda>v. if u_id v = ''radar_system'' then v\<lparr>unlocked := True\<rparr> else v)
                       (upgrades rich_state)"
      "demand (economy s') = demand (economy rich_state)
          + (case effect (INITIAL_UPGRADES ! 2) of AddDemand n \<Rightarrow> n | _ \<Rightarrow> 0)"
      "tourismScore (economy s') = tourismScore (economy rich_state)
          + (case effect (INITIAL_UPGRADES ! 2) of AddTourism n \<Rightarrow> n | _ \<Rightarrow> 0)"
      "purchaseUpgrade ''radar_system'' s' g' = (s', g')"
    by blast
  have c2: "\<exists>s' g'. purchaseUpgrade ''radar_system'' rich_state example_entropy = (s', g')
         \<and> balance (economy s') = 50000
         \<and> map unlocked (upgrades s') = [False, False, True, False]
         \<and> demand (economy s') = 65
         \<and> tourismScore (economy s') = 20
         \<and> purchaseUpgrade ''radar_system'' s' g' = (s', g')"
    using b
    by (intro exI [of _ s'] exI [of _ g'])
       (simp add: radar rich_state_def initial_state_def INITIAL_UPGRADES_def INITIAL_ECONOMY_def)
  show ?thesis by (intro conjI poor c1 h c2)
qed

text \<open>
  Claim C10. With a balance below 25000 \<^verbatim>\<open>influenceEconomy\<close> leaves the state as it is but
  for one more log entry. With a balance of 25000 or more it takes 25000 off the balance,
  adds 5 to the tourism score or to the industry score, whichever was chosen, and adds 5 to
  the demand.
\<close>

theorem influenceEconomy_contract:
  "(balance (economy prev) < 25000 \<longrightarrow>
      (\<exists>s' g'. influenceEconomy ty prev g = (s', g')
         \<and> s' = prev\<lparr>logs := push_log (uuids g (upos g)) ''Not enough funds for campaign!''
                                log_warning (gameTime prev) (logs prev)\<rparr>
         \<and> economy s' = economy prev))
   \<and> (25000 \<le> balance (economy prev2) \<longrightarrow>
      (\<exists>s' g'. influenceEconomy ty2 prev2 g2 = (s', g')
         \<and> balance (economy s') = balance (economy prev2) - 25000
         \<and> tourismScore (economy s')
              = tourismScore (economy prev2) + (if ty2 = tourism then 5 else 0)
         \<and> industryScore (economy s')
              = industryScore (economy prev2) + (if ty2 = industry then 5 else 0)
         \<and> demand (economy s') = demand (economy prev2) + 5
         \<and> reputation (economy s') = reputation (economy prev2)))"
  by (cases ty2) (auto simp: influenceEconomy_def addLog_def uuidv4_def Let_def)

text \<open>A campaign that cannot be paid for, and an industry campaign from the initial state.\<close>

theorem influenceEconomy_contract_witness:
  "balance (economy (rich_state\<lparr>economy := INITIAL_ECONOMY\<lparr>balance := 24999\<rparr>\<rparr>)) < 25000
   \<and> (\<exists>s' g'. influenceEconomy tourism (rich_state\<lparr>economy := INITIAL_ECONOMY\<lparr>balance := 24999\<rparr>\<rparr>)
           example_entropy = (s', g')
         \<and> economy s' = INITIAL_ECONOMY\<lparr>balance := 24999\<rparr>
         \<and> map message (logs s') = [''Not enough funds for campaign!''])
   \<and> 25000 \<le> balance (economy (initial_state False))
   \<and> (\<exists>s' g'. influenceEconomy industry (initial_state False) example_entropy = (s', g')
         \<and> balance (economy s') = 175000
         \<and> tourismScore (economy s') = 20
         \<and> industryScore (economy s') = 35
         \<and> demand (economy s') = 45
         \<and> reputation (economy s') = 80)"
proof -
  let ?poor = "rich_state\<lparr>economy := INITIAL_ECONOMY\<lparr>balance := 24999\<rparr>\<rparr>"
  note inst = influenceEconomy_contract [of
      "rich_state\<lparr>economy := INITIAL_ECONOMY\<lparr>balance := 24999\<rparr>\<rparr>" tourism example_entropy
      "initial_state False" industry example_entropy]
  have h1: "balance (economy ?poor) < 25000" by simp
  have h2: "25000 \<le> balance (economy (initial_state False))"
    by (simp add: initial_state_def INITIAL_ECONOMY_def)
  from inst h1 obtain s1 g1 where
    a: "influenceEconomy tourism ?poor example_entropy = (s1, g1)"
      "s1 = ?poor\<lparr>logs := push_log (uuids example_entropy (upos example_entropy))
                ''Not enough funds for campaign!'' log_warning (gameTime ?poor) (logs ?poor)\<rparr>"
      "economy s1 = economy ?poor"
    by blast
  have c1: "\<exists>s' g'. influenceEconomy tourism ?poor example_entropy = (s', g')
         \<and> economy s' = INITIAL_ECONOMY\<lparr>balance := 24999\<rparr>
         \<and> map message (logs s') = [''Not enough funds for campaign!'']"
    using a
    by (intro exI [of _ s1] exI [of _ g1])
       (simp add: rich_state_def initial_state_def push_log_def)
  from inst h2 obtain s2 g2 where
    b: "influenceEconomy industry (initial_state False) example_entropy = (s2, g2)"
      "balance (economy s2) = balance (economy (initial_state False)) - 25000"
      "tourismScore (economy s2) = tourismScore (economy (initial_state False))
          + (if industry = tourism then 5 else 0)"
      "industryScore (economy s2) = industryScore (economy (initial_state False))
          + (if industry = industry then 5 else 0)"
      "demand (economy s2) = demand (economy (initial_state False)) + 5"
      "reputation (economy s2) = reputation (economy (initial_state False))"
    by blast
  have c2: "\<exists>s' g'. influenceEconomy industry (initial_state False) example_entropy = (s', g')
         \<and> balance (economy s') = 175000
         \<and> tourismScore (economy s') = 20
         \<and> industryScore (economy s') = 35
         \<and> demand (economy s') = 45
         \<and> reputation (economy s') = 80"
    using b
    by (intro exI [of _ s2] exI [of _ g2]) (simp add: initial_state_def INITIAL_ECONOMY_def)
  show ?thesis by (intro conjI h1 c1 h2 c2)
qed

section \<open>Bounds of the economy\<close>

text \<open>
  Claim C3, as amended. The periodic growth leaves the demand between 10 and 200, and does
  not touch the reputation; so the demand is between 10 and 200 after every tick whose
  number is a multiple of 1440. The reputation is not clamped: a diversion takes exactly 2
  off it and a go-around exactly 1, whatever its value.
\<close>

theorem economy_bounds_amended:
  "10 \<le> demand (organic_growth ups eco) \<and> demand (organic_growth ups eco) \<le> 200
   \<and> reputation (organic_growth ups eco) = reputation eco
   \<and> (js_rem (gameTime prev + 1) 1440 = 0 \<longrightarrow>
        (\<exists>s' g'. tick ref prev g = Inr (s', g')
           \<and> 10 \<le> demand (economy s') \<and> demand (economy s') \<le> 200))
   \<and> (w > 2 \<or> b > 3 \<longrightarrow>
        reputation (sp_economy (snd (spawn_flight w b now f st))) = reputation (sp_economy st) - 2)
   \<and> (p_status p \<noteq> GO_AROUND \<and> p_status p' = GO_AROUND \<longrightarrow>
        reputation (ps_economy (go_around_event now2 p p' ps)) = reputation (ps_economy ps) - 1)"
proof (intro conjI impI)
  show "10 \<le> demand (organic_growth ups eco)" "demand (organic_growth ups eco) \<le> 200"
    "reputation (organic_growth ups eco) = reputation eco"
    by (simp_all add: organic_growth_def Let_def)
next
  assume m: "js_rem (gameTime prev + 1) 1440 = 0"
  from tick_shape [of ref prev g] obtain out and st' :: PassState where
    t: "tick ref prev g =
     Inr (prev\<lparr>gameTime := gameTime prev + 1, schedule := ps_schedule st',
               planes := filter (\<lambda>p. p_status p \<noteq> DEPARTED) out,
               economy := (if js_rem (gameTime prev + 1) 1440 = 0
                           then organic_growth (upgrades prev) (ps_economy st')
                           else ps_economy st'),
               logs := ps_logs st', gateOccupancy := ps_occupancy st'\<rparr>, ps_entropy st')"
    by auto
  show "\<exists>s' g'. tick ref prev g = Inr (s', g')
           \<and> 10 \<le> demand (economy s') \<and> demand (economy s') \<le> 200"
    by (simp add: t m organic_growth_def Let_def)
next
  assume "w > 2 \<or> b > 3"
  then show "reputation (sp_economy (snd (spawn_flight w b now f st))) = reputation (sp_economy st) - 2"
    by (auto simp: spawn_flight_def split_beta)
next
  assume "p_status p \<noteq> GO_AROUND \<and> p_status p' = GO_AROUND"
  then show "reputation (ps_economy (go_around_event now2 p p' ps)) = reputation (ps_economy ps) - 1"
    by (simp add: go_around_event_def split_beta)
qed

text \<open>The growth step at the end of the first day; a diversion and a go-around.\<close>

theorem economy_bounds_amended_witness:
  "js_rem (gameTime midnight_state + 1) 1440 = 0
   \<and> (\<exists>s' g'. tick midnight_state midnight_state example_entropy = Inr (s', g')
         \<and> 10 \<le> demand (economy s') \<and> demand (economy s') \<le> 200)
   \<and> demand (organic_growth INITIAL_UPGRADES busy_economy) = 200
   \<and> ((3 :: nat) > 2 \<or> (0 :: nat) > 3)
   \<and> reputation (sp_economy congested_spawn) = 1
   \<and> reputation (sp_economy (snd (spawn_flight 3 0 11 (example_flight ''x'' 5 Scheduled)
         congested_spawn))) = - 1
   \<and> p_status approach_plane \<noteq> GO_AROUND
   \<and> p_status (approach_plane\<lparr>p_status := GO_AROUND\<rparr>) = GO_AROUND
   \<and> reputation (ps_economy (go_around_event 11 approach_plane
         (approach_plane\<lparr>p_status := GO_AROUND\<rparr>) contention_pass)) = 79"
proof -
  note inst = economy_bounds_amended [of INITIAL_UPGRADES busy_economy midnight_state
      midnight_state example_entropy 3 0 11 "example_flight ''x'' 5 Scheduled" congested_spawn
      approach_plane "approach_plane\<lparr>p_status := GO_AROUND\<rparr>" 11 contention_pass]
  have h1: "js_rem (gameTime midnight_state + 1) 1440 = 0"
    by (simp add: midnight_state_def arrival_state_def js_rem_def)
  have h2: "(3 :: nat) > 2 \<or> (0 :: nat) > 3" by simp
  have h3: "p_status approach_plane \<noteq> GO_AROUND"
    "p_status (approach_plane\<lparr>p_status := GO_AROUND\<rparr>) = GO_AROUND"
    by (simp_all add: approach_plane_def example_plane_def)
  have r0: "reputation (sp_economy congested_spawn) = 1"
    by (simp add: congested_spawn_def congested_state_def INITIAL_ECONOMY_def)
  have r1: "reputation (ps_economy contention_pass) = 80"
    by (simp add: contention_pass_def contention_state_def initial_state_def INITIAL_ECONOMY_def)
  have c1: "\<exists>s' g'. tick midnight_state midnight_state example_entropy = Inr (s', g')
         \<and> 10 \<le> demand (economy s') \<and> demand (economy s') \<le> 200"
    using inst h1 by blast
  have c2: "reputation (sp_economy (snd (spawn_flight 3 0 11 (example_flight ''x'' 5 Scheduled)
         congested_spawn))) = - 1"
    using inst h2 r0 by simp
  have c3: "reputation (ps_economy (go_around_event 11 approach_plane
         (approach_plane\<lparr>p_status := GO_AROUND\<rparr>) contention_pass)) = 79"
    using inst h3 r1 by simp
  have e: "demand (organic_growth INITIAL_UPGRADES busy_economy) = 200"
    by (simp add: organic_growth_def busy_economy_def INITIAL_ECONOMY_def INITIAL_UPGRADES_def)
  show ?thesis by (intro conjI h1 c1 e h2 r0 c2 h3 c3)
qed

text \<open>
  Claim C3 as it was stated fails: in \<open>congested_state\<close> the reputation is 1, the flight \<open>x\<close>
  is diverted in the next tick, and the reputation after that tick is \<open>-1\<close>.
\<close>

theorem economy_bounds_counterexample:
  "0 \<le> reputation (economy congested_state) \<and> reputation (economy congested_state) \<le> 100
   \<and> \<not> isl (tick congested_state congested_state example_entropy)
   \<and> reputation (economy (fst (projr (tick congested_state congested_state example_entropy))))
       = - 1
   \<and> map f_status (schedule (fst (projr (tick congested_state congested_state example_entropy))))
       = [Diverted, Scheduled, Scheduled]"
  by (simp add: engine_defs congested_state_def process_spawns.simps spawn_flight_def)

end
